theory Spec2Isabelle
  imports Complex_Main "HOL-Library.Sublist"
begin

section \<open>JavaScript values used by the trend analysis service\<close>

text \<open>
  The service of \<^verbatim>\<open>trend-analysis.service.ts\<close> is embedded function by function.
  JavaScript strings are modelled as byte strings (\<^typ>\<open>string\<close>), with the two
  non-ASCII report headings written as their UTF-8 bytes.
\<close>

subsection \<open>Numbers\<close>

text \<open>
  JavaScript numbers are IEEE 754 doubles. The integers the service holds (counts,
  scores, epoch milliseconds, attempt numbers) are modelled as \<^typ>\<open>int\<close> or \<^typ>\<open>nat\<close>.
  Where the code divides, multiplies or adds up numbers, the result is the exact
  result rounded to the nearest double, ties to even: \<open>toDouble\<close> rounds a rational to
  a significand of 53 bits, which is what a double operation does when its result lies
  between \<open>2\<^sup>-\<^sup>1\<^sup>0\<^sup>2\<^sup>2\<close> and \<open>2\<^sup>1\<^sup>0\<^sup>2\<^sup>4\<close> in absolute value; overflow and
  subnormal numbers are not modelled. \<^verbatim>\<open>NaN\<close> is \<^term>\<open>None\<close> where it can arise.
\<close>

text \<open>The number of bits of a positive integer.\<close>

function bitLength :: "int \<Rightarrow> int" where
  "bitLength n = (if n \<le> 0 then 0 else 1 + bitLength (n div 2))"
  by pat_completeness auto
termination
  by (relation "measure nat") auto

declare bitLength.simps [simp del]

text \<open>
  The quotient \<open>n / d\<close> of two integers, \<open>d\<close> positive, rounded to the nearest integer,
  ties to the even one.
\<close>

definition roundHalfEven :: "int \<Rightarrow> int \<Rightarrow> int" where
  "roundHalfEven n d =
     (let f = n div d; r = n mod d
      in if 2 * r < d then f else if d < 2 * r then f + 1 else if even f then f else f + 1)"

text \<open>
  The exponent of the last bit of the significand of a positive number \<open>p / q\<close>: the
  \<open>e\<close> with \<open>2\<^sup>5\<^sup>2 \<le> (p / q) / 2\<^sup>e < 2\<^sup>5\<^sup>3\<close>. The bit lengths of \<open>p\<close> and \<open>q\<close> give it up to
  one. The significand is \<open>(p / q) / 2\<^sup>e\<close> rounded to an integer.
\<close>

definition exponentOf :: "int \<Rightarrow> int \<Rightarrow> int" where
  "exponentOf p q =
     (let e0 = bitLength p - bitLength q - 53
      in if 2 ^ 53 \<le> (if 0 \<le> e0 then p div (q * 2 ^ nat e0) else (p * 2 ^ nat (- e0)) div q)
         then e0 + 1 else e0)"

definition significand :: "int \<Rightarrow> int \<Rightarrow> int \<Rightarrow> int" where
  "significand p q e =
     (if 0 \<le> e then roundHalfEven p (q * 2 ^ nat e) else roundHalfEven (p * 2 ^ nat (- e)) q)"

definition toDouble :: "rat \<Rightarrow> rat" where
  "toDouble x =
     (if x = 0 then 0
      else (let (p, q) = quotient_of \<bar>x\<bar>;
                e = exponentOf p q;
                m = significand p q e
            in sgn x * (if 0 \<le> e then of_int (m * 2 ^ nat e)
                        else of_int m / of_int (2 ^ nat (- e)))))"

text \<open>The operators \<^verbatim>\<open>+\<close>, \<^verbatim>\<open>*\<close> and \<^verbatim>\<open>/\<close> on two doubles, the divisor not zero.\<close>

definition dadd :: "rat \<Rightarrow> rat \<Rightarrow> rat" where
  "dadd a b = toDouble (a + b)"

definition dmul :: "rat \<Rightarrow> rat \<Rightarrow> rat" where
  "dmul a b = toDouble (a * b)"

definition ddiv :: "rat \<Rightarrow> rat \<Rightarrow> rat" where
  "ddiv a b = toDouble (a / b)"

text \<open>\<^verbatim>\<open>Math.round\<close> gives the nearest integer and rounds halves up.\<close>

definition Math_round :: "rat \<Rightarrow> int" where
  "Math_round x = \<lfloor>x + 1 / 2\<rfloor>"

subsection \<open>Strings\<close>

definition digit :: "int \<Rightarrow> char" where
  "digit d = char_of (48 + d)"

text \<open>The decimal digits of a number that is not negative.\<close>

function showDigits :: "int \<Rightarrow> string" where
  "showDigits n = (if n < 10 then [digit n] else showDigits (n div 10) @ [digit (n mod 10)])"
  by pat_completeness auto
termination
  by (relation "measure nat") auto

declare showDigits.simps [simp del]

definition show_int :: "int \<Rightarrow> string" where
  "show_int i = (if i < 0 then CHR ''-'' # showDigits (- i) else showDigits i)"

definition isDigit :: "char \<Rightarrow> bool" where
  "isDigit c = (48 \<le> (of_char c :: int) \<and> (of_char c :: int) \<le> 57)"

text \<open>\<^verbatim>\<open>String.prototype.toLowerCase\<close> on the ASCII letters.\<close>

definition lowerChar :: "char \<Rightarrow> char" where
  "lowerChar c = (if 65 \<le> (of_char c :: int) \<and> (of_char c :: int) \<le> 90
                  then char_of ((of_char c :: int) + 32) else c)"

definition toLowerCase :: "string \<Rightarrow> string" where
  "toLowerCase s = map lowerChar s"

text \<open>\<^verbatim>\<open>s.includes(k)\<close>: \<open>k\<close> occurs in \<open>s\<close> as a contiguous substring.\<close>

definition str_includes :: "string \<Rightarrow> string \<Rightarrow> bool" where
  "str_includes s k = sublist k s"

text \<open>\<^verbatim>\<open>Array.prototype.join\<close> on strings.\<close>

fun join :: "string \<Rightarrow> string list \<Rightarrow> string" where
  "join sep [] = []"
| "join sep [x] = x"
| "join sep (x # y # ys) = x @ sep @ join sep (y # ys)"

subsection \<open>Records of the window\<close>

text \<open>The interface \<^verbatim>\<open>RedditPost\<close>; the two optional fields are options.\<close>

record RedditPost =
  id :: string
  title :: string
  author :: string
  subreddit :: string
  score :: int
  num_comments :: int
  created_utc :: int
  reddit_url :: string
  external_url :: "string option"
  selftext :: "string option"

text \<open>
  The interfaces \<^verbatim>\<open>TrendAnalysisResult\<close> and \<^verbatim>\<open>ProblemAnalysis\<close>. A growth percentage
  can be \<^verbatim>\<open>NaN\<close>, which is \<^term>\<open>None\<close>.
\<close>

record TrendAnalysisResult =
  trend :: string
  growthPercentage :: "int option"
  timePeriod :: string
  marketAnalysis :: string
  competitionLevel :: string
  entryCost :: string
  recommendation :: string
  confidence :: int

record ProblemAnalysis =
  problem :: string
  frequency :: int
  severity :: string
  potentialSolutions :: "string list"
  marketSize :: string
  urgency :: string

section \<open>Fallback trend analysis\<close>

text \<open>
  \<^verbatim>\<open>subredditCounts\<close> is the object \<^verbatim>\<open>{}\<close> used as a dictionary from subreddit label to
  count. It is modelled as the list of its own properties in the order of their
  creation. The object inherits from \<^verbatim>\<open>Object.prototype\<close>: a label that names one of the
  functions there reads as that function until the dictionary has a property of its
  own for it, and \<^verbatim>\<open>__proto__\<close> is an accessor. So the value of a property is a count
  or, for such a label, a text.
\<close>

datatype val = Num nat | Str string

text \<open>
  The functions of \<^verbatim>\<open>Object.prototype\<close>, each with the name it has as a function, and
  the text that \<^verbatim>\<open>+\<close> converts a built-in function to.
\<close>

definition prototypeFunctions :: "(string \<times> string) list" where
  "prototypeFunctions =
     [(''constructor'', ''Object''),
      (''__defineGetter__'', ''__defineGetter__''),
      (''__defineSetter__'', ''__defineSetter__''),
      (''hasOwnProperty'', ''hasOwnProperty''),
      (''__lookupGetter__'', ''__lookupGetter__''),
      (''__lookupSetter__'', ''__lookupSetter__''),
      (''isPrototypeOf'', ''isPrototypeOf''),
      (''propertyIsEnumerable'', ''propertyIsEnumerable''),
      (''toString'', ''toString''),
      (''valueOf'', ''valueOf''),
      (''toLocaleString'', ''toLocaleString'')]"

definition functionText :: "string \<Rightarrow> string" where
  "functionText name = ''function '' @ name @ ''() { [native code] }''"

text \<open>
  \<^verbatim>\<open>(acc[k] || 0) + 1\<close> for a label other than \<^verbatim>\<open>__proto__\<close>. A count is incremented. A
  text that is not empty is truthy and \<^verbatim>\<open>+\<close> appends \<^verbatim>\<open>1\<close> to it. A label that is no
  property of the dictionary reads as the function the prototype has for it, which is
  truthy and is converted to its text, or else as \<^verbatim>\<open>undefined\<close>, which gives \<^verbatim>\<open>0 + 1\<close>.
\<close>

definition plusOne :: "(string \<times> val) list \<Rightarrow> string \<Rightarrow> val" where
  "plusOne acc k =
     (case map_of acc k of
        Some (Num c) \<Rightarrow> Num (c + 1)
      | Some (Str s) \<Rightarrow> (if s = [] then Num 1 else Str (s @ ''1''))
      | None \<Rightarrow>
          (case map_of prototypeFunctions k of
             Some name \<Rightarrow> Str (functionText name @ ''1'')
           | None \<Rightarrow> Num 1))"

text \<open>\<^verbatim>\<open>acc[k] = v\<close> for a label other than \<^verbatim>\<open>__proto__\<close>: a property of its own.\<close>

fun assign :: "(string \<times> val) list \<Rightarrow> string \<Rightarrow> val \<Rightarrow> (string \<times> val) list" where
  "assign [] k v = [(k, v)]"
| "assign ((k', c) # acc) k v =
     (if k' = k then (k', v) # acc else (k', c) # assign acc k v)"

text \<open>
  \<open>countKey acc k\<close> is \<^verbatim>\<open>acc[k] = (acc[k] || 0) + 1\<close>. For \<^verbatim>\<open>__proto__\<close> the right-hand side
  is a text, and the setter of \<^verbatim>\<open>Object.prototype\<close> ignores a value that is neither an
  object nor \<^verbatim>\<open>null\<close>: the dictionary is left as it is.
\<close>

definition countKey :: "(string \<times> val) list \<Rightarrow> string \<Rightarrow> (string \<times> val) list" where
  "countKey acc k = (if k = ''__proto__'' then acc else assign acc k (plusOne acc k))"

definition subredditCounts :: "RedditPost list \<Rightarrow> (string \<times> val) list" where
  "subredditCounts posts = foldl (\<lambda>acc post. countKey acc (subreddit post)) [] posts"

text \<open>
  \<^verbatim>\<open>Object.entries\<close> lists the array-index keys first, in ascending numeric order,
  and then the other keys in the order of their creation. An array index is a
  canonical decimal numeral below \<open>2\<^sup>3\<^sup>2 - 1\<close>.
\<close>

definition digitsValue :: "string \<Rightarrow> int" where
  "digitsValue s = foldl (\<lambda>n c. 10 * n + ((of_char c :: int) - 48)) 0 s"

definition isArrayIndex :: "string \<Rightarrow> bool" where
  "isArrayIndex k =
     (k \<noteq> [] \<and> list_all isDigit k \<and> (k = ''0'' \<or> hd k \<noteq> CHR ''0'')
      \<and> digitsValue k < 4294967295)"

definition Object_entries :: "(string \<times> val) list \<Rightarrow> (string \<times> val) list" where
  "Object_entries obj =
     sort_key (\<lambda>(k, c). digitsValue k) (filter (\<lambda>(k, c). isArrayIndex k) obj)
     @ filter (\<lambda>(k, c). \<not> isArrayIndex k) obj"

text \<open>
  \<^verbatim>\<open>Array.prototype.sort\<close> with a comparator. The sort is stable; it is modelled as an
  insertion sort that puts an element before the first one the comparator does not
  rank before it. A comparator result that is \<^verbatim>\<open>NaN\<close> (\<^term>\<open>None\<close>) counts as zero.
  When the comparator is not a consistent ordering, ECMAScript leaves the resulting
  order to the implementation; that is the case here only when a value is a text.
\<close>

fun insertBy :: "('a \<Rightarrow> 'a \<Rightarrow> int option) \<Rightarrow> 'a \<Rightarrow> 'a list \<Rightarrow> 'a list" where
  "insertBy compare x [] = [x]"
| "insertBy compare x (y # ys) =
     (if (case compare x y of None \<Rightarrow> 0 | Some v \<Rightarrow> v) \<le> 0
      then x # y # ys else y # insertBy compare x ys)"

definition Array_sort :: "('a \<Rightarrow> 'a \<Rightarrow> int option) \<Rightarrow> 'a list \<Rightarrow> 'a list" where
  "Array_sort compare xs = foldr (insertBy compare) xs []"

text \<open>
  The comparator \<^verbatim>\<open>([, a], [, b]) => b - a\<close>. The text of a function is not a numeral,
  so a difference with a text is \<^verbatim>\<open>NaN\<close>.
\<close>

definition byCountDescending :: "string \<times> val \<Rightarrow> string \<times> val \<Rightarrow> int option" where
  "byCountDescending x y =
     (case (snd y, snd x) of
        (Num b, Num a) \<Rightarrow> Some (int b - int a)
      | _ \<Rightarrow> None)"

text \<open>\<^verbatim>\<open>Object.entries(subredditCounts).sort(([, a], [, b]) => b - a).slice(0, 3)\<close>.\<close>

definition topSubreddits :: "RedditPost list \<Rightarrow> (string \<times> val) list" where
  "topSubreddits posts =
     take 3 (Array_sort byCountDescending (Object_entries (subredditCounts posts)))"

text \<open>
  The two means, \<^verbatim>\<open>posts.reduce((sum, post) => sum + post.score, 0) / posts.length\<close>;
  \<^term>\<open>None\<close> is the \<^verbatim>\<open>NaN\<close> of \<^verbatim>\<open>0 / 0\<close> on an empty list.
\<close>

definition mean :: "int list \<Rightarrow> rat option" where
  "mean xs =
     (if xs = [] then None
      else Some (ddiv (foldl dadd 0 (map of_int xs)) (of_nat (length xs))))"

definition avgScore :: "RedditPost list \<Rightarrow> rat option" where
  "avgScore posts = mean (map score posts)"

definition avgComments :: "RedditPost list \<Rightarrow> rat option" where
  "avgComments posts = mean (map num_comments posts)"

text \<open>The text of \<^verbatim>\<open>Math.round(x)\<close> in a template literal.\<close>

definition showRounded :: "rat option \<Rightarrow> string" where
  "showRounded x = (case x of None \<Rightarrow> ''NaN'' | Some q \<Rightarrow> show_int (Math_round q))"

text \<open>
  The first insight. \<^verbatim>\<open>Math.round((topSubreddits[0][1] / posts.length) * 100)\<close> is
  \<^verbatim>\<open>NaN\<close> when the value is the text of a function.
\<close>

definition topTrend :: "RedditPost list \<Rightarrow> string \<times> val \<Rightarrow> TrendAnalysisResult" where
  "topTrend posts top0 =
     \<lparr> trend = ''Growing activity in '' @ fst top0 @ '' community'',
       growthPercentage =
         (case snd top0 of
            Num c \<Rightarrow> Some (Math_round (dmul (ddiv (of_nat c) (of_nat (length posts))) 100))
          | Str s \<Rightarrow> None),
       timePeriod = ''30 days'',
       marketAnalysis = ''High engagement community with '' @ showRounded (avgScore posts)
         @ '' avg score and '' @ showRounded (avgComments posts) @ '' avg comments'',
       competitionLevel = ''Medium'',
       entryCost = ''Low'',
       recommendation = ''Consider building tools for '' @ fst top0 @ '' community needs'',
       confidence = 60 \<rparr>"

definition engagementTrend :: "rat \<Rightarrow> TrendAnalysisResult" where
  "engagementTrend avg =
     \<lparr> trend = ''High-engagement content trend'',
       growthPercentage = Some (Math_round (dmul (ddiv avg 100) 10)),
       timePeriod = ''30 days'',
       marketAnalysis = ''Content with high engagement indicates strong community interest'',
       competitionLevel = ''High'',
       entryCost = ''Medium'',
       recommendation = ''Focus on content creation and community management tools'',
       confidence = 70 \<rparr>"

definition getFallbackTrendAnalysis :: "RedditPost list \<Rightarrow> TrendAnalysisResult list" where
  "getFallbackTrendAnalysis posts =
     (let trends0 = [];
          trends1 = (case topSubreddits posts of
                       [] \<Rightarrow> trends0
                     | top0 # _ \<Rightarrow> trends0 @ [topTrend posts top0]);
          trends2 = (case avgScore posts of
                       None \<Rightarrow> trends1
                     | Some avg \<Rightarrow> if avg > 100 then trends1 @ [engagementTrend avg] else trends1)
      in trends2)"


section \<open>Fallback problem analysis\<close>

definition problemKeywords :: "string list" where
  "problemKeywords =
     [''problem'', ''issue'', ''difficult'', ''hard'', ''struggle'', ''frustrated'',
      ''annoying'', ''broken'', ''fix'', ''help'']"

text \<open>
  The callback of \<^verbatim>\<open>posts.filter\<close>: some keyword occurs in the lower-cased title or in
  the lower-cased \<^verbatim>\<open>selftext\<close>; an absent \<^verbatim>\<open>selftext\<close> gives \<^verbatim>\<open>undefined\<close>, which
  counts as false.
\<close>

definition isProblemPost :: "RedditPost \<Rightarrow> bool" where
  "isProblemPost post =
     list_ex (\<lambda>keyword.
        str_includes (toLowerCase (title post)) keyword
        \<or> (case selftext post of
              None \<Rightarrow> False
            | Some body \<Rightarrow> str_includes (toLowerCase body) keyword))
       problemKeywords"

definition isLowEngagementPost :: "RedditPost \<Rightarrow> bool" where
  "isLowEngagementPost post = (score post < 5 \<and> num_comments post < 3)"

definition keywordProblem :: "RedditPost list \<Rightarrow> ProblemAnalysis" where
  "keywordProblem problemPosts =
     \<lparr> problem = ''User-reported issues and difficulties'',
       frequency = int (length problemPosts),
       severity = (if length problemPosts > 10 then ''High'' else ''Medium''),
       potentialSolutions =
         [''User support tools'', ''Automated troubleshooting'', ''Community forums''],
       marketSize = ''Large'',
       urgency = ''High'' \<rparr>"

definition lowEngagementProblem :: "RedditPost list \<Rightarrow> ProblemAnalysis" where
  "lowEngagementProblem lowEngagementPosts =
     \<lparr> problem = ''Low engagement content'',
       frequency = int (length lowEngagementPosts),
       severity = ''Medium'',
       potentialSolutions =
         [''Content optimization tools'', ''Engagement analytics'', ''A/B testing platforms''],
       marketSize = ''Medium'',
       urgency = ''Medium'' \<rparr>"

definition getFallbackProblemAnalysis :: "RedditPost list \<Rightarrow> ProblemAnalysis list" where
  "getFallbackProblemAnalysis posts =
     (let problems0 = [];
          problemPosts = filter isProblemPost posts;
          problems1 = (if length problemPosts > 0
                       then problems0 @ [keywordProblem problemPosts] else problems0);
          lowEngagementPosts = filter isLowEngagementPost posts;
          problems2 = (if (of_nat (length lowEngagementPosts) :: rat)
                            > dmul (of_nat (length posts)) (toDouble (3 / 10))
                       then problems1 @ [lowEngagementProblem lowEngagementPosts]
                       else problems1)
      in problems2)"

section \<open>Decoded responses\<close>

text \<open>
  The values the callers of an analysis receive: what \<^verbatim>\<open>JSON.parse\<close> returns, and the
  number \<^verbatim>\<open>NaN\<close>, which a fallback insight can hold. An object is the list of its
  properties in the order of the text; when a name is repeated the last value is the
  one read.
\<close>

datatype json =
    JNull
  | JBool bool
  | JNumber rat
  | JString string
  | JArray "json list"
  | JObject "(string \<times> json) list"
  | JNaN

text \<open>The insights of the fallback analyzers as the objects the callers receive.\<close>

definition trendJson :: "TrendAnalysisResult \<Rightarrow> json" where
  "trendJson t =
     JObject [(''trend'', JString (trend t)),
              (''growthPercentage'',
                 (case growthPercentage t of None \<Rightarrow> JNaN | Some g \<Rightarrow> JNumber (of_int g))),
              (''timePeriod'', JString (timePeriod t)),
              (''marketAnalysis'', JString (marketAnalysis t)),
              (''competitionLevel'', JString (competitionLevel t)),
              (''entryCost'', JString (entryCost t)),
              (''recommendation'', JString (recommendation t)),
              (''confidence'', JNumber (of_int (confidence t)))]"

definition problemJson :: "ProblemAnalysis \<Rightarrow> json" where
  "problemJson p =
     JObject [(''problem'', JString (problem p)),
              (''frequency'', JNumber (of_int (frequency p))),
              (''severity'', JString (severity p)),
              (''potentialSolutions'', JArray (map JString (potentialSolutions p))),
              (''marketSize'', JString (marketSize p)),
              (''urgency'', JString (urgency p))]"

text \<open>
  \<^verbatim>\<open>text.replace(/^```json\s*|```$/g, '')\<close>: a leading \<^verbatim>\<open>```json\<close> with the white space
  after it is removed, and so is a \<^verbatim>\<open>```\<close> that ends the text. White space is the ASCII
  white space.
\<close>

definition isSpace :: "char \<Rightarrow> bool" where
  "isSpace c = ((of_char c :: int) = 32 \<or> (9 \<le> (of_char c :: int) \<and> (of_char c :: int) \<le> 13))"

definition fence :: string where
  "fence = [CHR 0x60, CHR 0x60, CHR 0x60]"

definition stripFence :: "string \<Rightarrow> string" where
  "stripFence text =
     (let s1 = (if prefix (fence @ ''json'') text
                then dropWhile isSpace (drop 7 text) else text);
          s2 = (if suffix fence s1 then take (length s1 - 3) s1 else s1)
      in s2)"

section \<open>The service and what surrounds it\<close>

text \<open>
  Everything the service reaches outside its own code is a field of the environment:
  \<^item> \<open>JSON_parse\<close> is \<^verbatim>\<open>JSON.parse\<close>; \<^term>\<open>None\<close> is its \<^verbatim>\<open>SyntaxError\<close>;
  \<^item> \<open>generateContent env n\<close> is the \<open>n\<close>-th request to the external analyzer (lines
    159 to 161 of an attempt): the milliseconds it takes, and the text of the response,
    or \<^term>\<open>None\<close> when the request or reading the response throws. Building the
    prompt before it (lines 115 to 158) is taken to succeed: it throws only for a
    \<^verbatim>\<open>created_utc\<close> outside the range of \<^verbatim>\<open>Date\<close>;
  \<^item> \<open>findAll env n\<close> is the \<open>n\<close>-th query \<^verbatim>\<open>redditPostRepository.findAll(1000, 0)\<close>: the
    milliseconds it takes and the posts, or \<^term>\<open>None\<close> when the repository rejects;
  \<^item> \<open>cutoffTimestamp env t days\<close> is the epoch second that \<^verbatim>\<open>Date\<close> computes for
    \<open>days\<close> calendar days before the instant \<open>t\<close>;
  \<^item> \<open>fractionToString\<close> is the text of a number that is not a plain integer numeral;
  \<^item> \<open>trendsFirst env t\<close> tells, when the two analyses of a report are both due to be
    resumed at the instant \<open>t\<close>, whether the trend analysis is resumed first.
\<close>

record env =
  JSON_parse :: "string \<Rightarrow> json option"
  generateContent :: "nat \<Rightarrow> int \<times> string option"
  findAll :: "nat \<Rightarrow> int \<times> RedditPost list option"
  cutoffTimestamp :: "int \<Rightarrow> int \<Rightarrow> int"
  fractionToString :: "rat \<Rightarrow> string"
  trendsFirst :: "int \<Rightarrow> bool"

text \<open>
  What is thrown: the \<^verbatim>\<open>Error\<close> of the constructor, the rejection of a repository query,
  and the \<^verbatim>\<open>TypeError\<close> of JavaScript. What is thrown inside the \<^verbatim>\<open>try\<close> block of an
  attempt is caught there and needs no name.
\<close>

datatype error = ConfigurationError | ProviderFailure | TypeError

datatype kind = Trends | Problems

text \<open>
  What a run does, in order. \<open>Requested\<close> is the request to the external analyzer of an
  attempt, \<open>Waited\<close> the timer before the next attempt; the other events are the log
  lines and the two assignments to the breaker.
\<close>

datatype event =
    BreakerRefused kind
  | Requested kind int
  | BreakerClosed kind
  | AttemptFailed kind int
  | BreakerOpened kind int
  | Waited kind int
  | FallbackUsed kind

text \<open>
  The state: the two breaker fields of the service object, then the clock
  (\<^verbatim>\<open>Date.now()\<close>), the numbers of requests and of queries made so far, and the events.
\<close>

record state =
  circuitBreakerOpen :: bool
  circuitBreakerResetTime :: int
  now :: int
  calls :: nat
  queries :: nat
  events :: "event list"

definition circuitBreakerTimeout :: int where
  "circuitBreakerTimeout = 5 * 60 * 1000"

definition maxRetries :: int where
  "maxRetries = 3"

definition retryDelay :: int where
  "retryDelay = 2000"


definition emit :: "event \<Rightarrow> state \<Rightarrow> state" where
  "emit e st = st\<lparr> events := events st @ [e] \<rparr>"

text \<open>The guard at the head of both analysis functions (lines 105 and 190).\<close>

definition circuitBreakerRefuses :: "state \<Rightarrow> bool" where
  "circuitBreakerRefuses st = (circuitBreakerOpen st \<and> now st < circuitBreakerResetTime st)"

text \<open>Lines 168 and 250.\<close>

definition closeCircuitBreaker :: "kind \<Rightarrow> state \<Rightarrow> state" where
  "closeCircuitBreaker k st = emit (BreakerClosed k) (st\<lparr> circuitBreakerOpen := False \<rparr>)"

text \<open>Lines 175 to 176 and 257 to 258.\<close>

definition openCircuitBreaker :: "kind \<Rightarrow> state \<Rightarrow> state" where
  "openCircuitBreaker k st =
     emit (BreakerOpened k (now st + circuitBreakerTimeout))
       (st\<lparr> circuitBreakerOpen := True,
            circuitBreakerResetTime := now st + circuitBreakerTimeout \<rparr>)"

text \<open>The fallback of each path, with its log line.\<close>

definition fallbackAnalysis :: "kind \<Rightarrow> RedditPost list \<Rightarrow> json list" where
  "fallbackAnalysis k posts =
     (case k of
        Trends \<Rightarrow> map trendJson (getFallbackTrendAnalysis posts)
      | Problems \<Rightarrow> map problemJson (getFallbackProblemAnalysis posts))"

definition useFallback :: "kind \<Rightarrow> RedditPost list \<Rightarrow> state \<Rightarrow> json list \<times> state" where
  "useFallback k posts st = (fallbackAnalysis k posts, emit (FallbackUsed k) st)"

text \<open>
  The body of the \<^verbatim>\<open>try\<close> block of one attempt. \<^term>\<open>None\<close> is control reaching the
  \<^verbatim>\<open>catch\<close> block: the request threw, or \<^verbatim>\<open>JSON.parse\<close> did. Otherwise the breaker is
  closed and the decoded value is returned when it is an array, and \<^verbatim>\<open>[]\<close> when not.
\<close>

definition tryAttempt :: "env \<Rightarrow> kind \<Rightarrow> int \<Rightarrow> state \<Rightarrow> json list option \<times> state" where
  "tryAttempt env k attempt st =
     (let (latency, response) = generateContent env (calls st);
          st1 = (emit (Requested k attempt) st)
                  \<lparr> calls := Suc (calls st), now := now st + latency \<rparr>
      in case response of
           None \<Rightarrow> (None, st1)
         | Some text \<Rightarrow>
             (case JSON_parse env (stripFence text) of
                None \<Rightarrow> (None, st1)
              | Some decoded \<Rightarrow>
                  (Some (case decoded of JArray items \<Rightarrow> items | _ \<Rightarrow> []),
                   closeCircuitBreaker k st1)))"

text \<open>\<^verbatim>\<open>await new Promise((resolve) => setTimeout(resolve, ms))\<close>.\<close>

definition sleep :: "kind \<Rightarrow> int \<Rightarrow> state \<Rightarrow> state" where
  "sleep k ms st = (emit (Waited k ms) st)\<lparr> now := now st + ms \<rparr>"

text \<open>
  The loop \<^verbatim>\<open>for (let attempt = 1; attempt <= maxRetries; attempt++)\<close> of both analysis
  functions, which differ in their fallback and in their messages only. The last
  branch is the \<^verbatim>\<open>return []\<close> after the loop.
\<close>

function attemptLoop :: "env \<Rightarrow> kind \<Rightarrow> RedditPost list \<Rightarrow> int \<Rightarrow> state \<Rightarrow> json list \<times> state" where
  "attemptLoop env k posts attempt st =
     (if attempt \<le> maxRetries then
        (case tryAttempt env k attempt st of
           (Some result, st1) \<Rightarrow> (result, st1)
         | (None, st1) \<Rightarrow>
             (let st2 = emit (AttemptFailed k attempt) st1
              in if attempt = maxRetries
                 then useFallback k posts (openCircuitBreaker k st2)
                 else attemptLoop env k posts (attempt + 1)
                        (sleep k (retryDelay * attempt) st2)))
      else ([], st))"
  by pat_completeness auto
termination
  by (relation "measure (\<lambda>(env, k, posts, attempt, st). nat (maxRetries + 1 - attempt))") auto

declare attemptLoop.simps [simp del]

text \<open>
  The body that \<^verbatim>\<open>analyzeWithGemini\<close> and \<^verbatim>\<open>analyzeProblemsWithGemini\<close> share: the guard
  of the breaker, which answers with the fallback, and then the loop.
\<close>

definition analyze :: "env \<Rightarrow> kind \<Rightarrow> RedditPost list \<Rightarrow> state \<Rightarrow> json list \<times> state" where
  "analyze env k posts st =
     (if circuitBreakerRefuses st
      then useFallback k posts (emit (BreakerRefused k) st)
      else attemptLoop env k posts 1 st)"

definition analyzeWithGemini :: "env \<Rightarrow> RedditPost list \<Rightarrow> state \<Rightarrow> json list \<times> state" where
  "analyzeWithGemini env posts st = analyze env Trends posts st"

definition analyzeProblemsWithGemini :: "env \<Rightarrow> RedditPost list \<Rightarrow> state \<Rightarrow> json list \<times> state" where
  "analyzeProblemsWithGemini env posts st = analyze env Problems posts st"

text \<open>
  The functions above and the three below describe an analysis that runs on its own:
  while it awaits a request, a timer or a query, the clock advances and nothing else
  happens to the service. Two analyses that run at the same time are described in the
  last section.

  \<^verbatim>\<open>getRecentPosts\<close>: the cutoff is computed before the query is awaited.
\<close>

definition getRecentPosts :: "env \<Rightarrow> int \<Rightarrow> state \<Rightarrow> (error + RedditPost list) \<times> state" where
  "getRecentPosts env days st =
     (let cutoff = cutoffTimestamp env (now st) days;
          (latency, found) = findAll env (queries st);
          st1 = st\<lparr> queries := Suc (queries st), now := now st + latency \<rparr>
      in case found of
           None \<Rightarrow> (Inl ProviderFailure, st1)
         | Some posts \<Rightarrow> (Inr (filter (\<lambda>post. created_utc post \<ge> cutoff) posts), st1))"

definition analyzeTrends :: "env \<Rightarrow> int \<Rightarrow> state \<Rightarrow> (error + json list) \<times> state" where
  "analyzeTrends env days st =
     (case getRecentPosts env days st of
        (Inl e, st1) \<Rightarrow> (Inl e, st1)
      | (Inr posts, st1) \<Rightarrow>
          if length posts = 0 then (Inr [], st1)
          else (let (trends, st2) = analyzeWithGemini env posts st1 in (Inr trends, st2)))"

definition analyzeProblems :: "env \<Rightarrow> int \<Rightarrow> state \<Rightarrow> (error + json list) \<times> state" where
  "analyzeProblems env days st =
     (case getRecentPosts env days st of
        (Inl e, st1) \<Rightarrow> (Inl e, st1)
      | (Inr posts, st1) \<Rightarrow>
          if length posts = 0 then (Inr [], st1)
          else (let (problems, st2) = analyzeProblemsWithGemini env posts st1
                in (Inr problems, st2)))"


section \<open>The report\<close>

definition newline :: string where
  "newline = [CHR 0x0A]"

text \<open>
  The text of a number: a decimal numeral when it is an integer below \<open>10\<^sup>2\<^sup>1\<close> in
  absolute value.
\<close>

definition numberToString :: "env \<Rightarrow> rat \<Rightarrow> string" where
  "numberToString env q =
     (if q = of_int \<lfloor>q\<rfloor> \<and> \<bar>q\<bar> < 1000000000000000000000
      then show_int \<lfloor>q\<rfloor> else fractionToString env q)"

text \<open>Conversions done from left to right; the first exception ends them.\<close>

fun collect :: "(error + 'a) list \<Rightarrow> error + 'a list" where
  "collect [] = Inr []"
| "collect (r # rs) =
     (case r of
        Inl e \<Rightarrow> Inl e
      | Inr x \<Rightarrow> (case collect rs of Inl e \<Rightarrow> Inl e | Inr xs \<Rightarrow> Inr (x # xs)))"

text \<open>
  \<open>toStr\<close> is the conversion to a string that a template literal and
  \<^verbatim>\<open>Array.prototype.join\<close> apply to a decoded value. An array is its elements joined
  by commas, \<^verbatim>\<open>null\<close> being the empty text there. An object is \<^verbatim>\<open>[object Object]\<close>,
  unless it has a property named \<^verbatim>\<open>toString\<close>: that property hides the method of the
  prototype and is not callable, so the conversion throws a \<^verbatim>\<open>TypeError\<close>.
\<close>

fun toStr :: "env \<Rightarrow> json \<Rightarrow> error + string" where
  "toStr env JNull = Inr ''null''"
| "toStr env (JBool b) = Inr (if b then ''true'' else ''false'')"
| "toStr env (JNumber q) = Inr (numberToString env q)"
| "toStr env (JString s) = Inr s"
| "toStr env (JArray items) =
     (case collect (map (\<lambda>item. if item = JNull then Inr [] else toStr env item) items) of
        Inl e \<Rightarrow> Inl e
      | Inr texts \<Rightarrow> Inr (join '','' texts))"
| "toStr env (JObject props) =
     (if ''toString'' \<in> fst ` set props then Inl TypeError else Inr ''[object Object]'')"
| "toStr env JNaN = Inr ''NaN''"

text \<open>
  Reading a property of a value that is not \<^verbatim>\<open>null\<close>: \<^term>\<open>None\<close> is \<^verbatim>\<open>undefined\<close>.
  None of the names the report reads is a property of an array, a string, a number
  or a boolean.
\<close>

definition property :: "json \<Rightarrow> string \<Rightarrow> json option" where
  "property v name = (case v of JObject props \<Rightarrow> map_of (rev props) name | _ \<Rightarrow> None)"

text \<open>A substitution \<^verbatim>\<open>${v.name}\<close> of a template literal, and a literal piece of it.\<close>

definition interpolate :: "env \<Rightarrow> json option \<Rightarrow> error + string" where
  "interpolate env v = (case v of None \<Rightarrow> Inr ''undefined'' | Some j \<Rightarrow> toStr env j)"

definition template :: "(error + string) list \<Rightarrow> error + string" where
  "template pieces = (case collect pieces of Inl e \<Rightarrow> Inl e | Inr texts \<Rightarrow> Inr (concat texts))"

text \<open>
  The callback of \<^verbatim>\<open>trends.forEach\<close>: the lines it appends, or the \<^verbatim>\<open>TypeError\<close> of
  reading a property of \<^verbatim>\<open>null\<close> or of a conversion.
\<close>

definition trendLines :: "env \<Rightarrow> nat \<Rightarrow> json \<Rightarrow> error + string" where
  "trendLines env index t =
     (if t = JNull then Inl TypeError
      else template
        [Inr (show_int (int index + 1)), Inr ''. '', interpolate env (property t ''trend''),
         Inr '' (+'', interpolate env (property t ''growthPercentage''),
         Inr ''% over '', interpolate env (property t ''timePeriod''), Inr '')'', Inr newline,
         Inr ''   Market: '', interpolate env (property t ''marketAnalysis''), Inr newline,
         Inr ''   Competition: '', interpolate env (property t ''competitionLevel''),
         Inr '' | Entry Cost: '', interpolate env (property t ''entryCost''), Inr newline,
         Inr ''   Recommendation: '', interpolate env (property t ''recommendation''), Inr newline,
         Inr ''   Confidence: '', interpolate env (property t ''confidence''), Inr ''%'',
         Inr newline, Inr newline])"

text \<open>
  The callback of \<^verbatim>\<open>problems.forEach\<close>. \<^verbatim>\<open>problem.potentialSolutions.join(', ')\<close> throws
  a \<^verbatim>\<open>TypeError\<close> unless the property is an array.
\<close>

definition joinSolutions :: "env \<Rightarrow> json option \<Rightarrow> error + string" where
  "joinSolutions env v =
     (case v of
        Some (JArray solutions) \<Rightarrow>
          (case collect (map (\<lambda>item. if item = JNull then Inr [] else toStr env item) solutions) of
             Inl e \<Rightarrow> Inl e
           | Inr texts \<Rightarrow> Inr (join '', '' texts))
      | _ \<Rightarrow> Inl TypeError)"

definition problemLines :: "env \<Rightarrow> nat \<Rightarrow> json \<Rightarrow> error + string" where
  "problemLines env index p =
     (if p = JNull then Inl TypeError
      else template
        [Inr (show_int (int index + 1)), Inr ''. '', interpolate env (property p ''problem''),
         Inr newline,
         Inr ''   Frequency: '', interpolate env (property p ''frequency''),
         Inr '' mentions | Severity: '', interpolate env (property p ''severity''), Inr newline,
         Inr ''   Market Size: '', interpolate env (property p ''marketSize''),
         Inr '' | Urgency: '', interpolate env (property p ''urgency''), Inr newline,
         Inr ''   Potential Solutions: '', joinSolutions env (property p ''potentialSolutions''),
         Inr newline, Inr newline])"

text \<open>\<^verbatim>\<open>items.forEach((item, index) => { report += ... })\<close>; an exception ends it.\<close>

fun forEachAppend ::
  "(nat \<Rightarrow> json \<Rightarrow> error + string) \<Rightarrow> json list \<Rightarrow> nat \<Rightarrow> string \<Rightarrow> error + string" where
  "forEachAppend f [] index report = Inr report"
| "forEachAppend f (item # items) index report =
     (case f index item of
        Inl e \<Rightarrow> Inl e
      | Inr lines \<Rightarrow> forEachAppend f items (index + 1) (report @ lines))"

definition reportHeader :: "int \<Rightarrow> string" where
  "reportHeader days =
     newline @ ''=== TREND ANALYSIS REPORT ('' @ show_int days @ '' days) ==='' @ newline @ newline"

definition trendsHeading :: string where
  "trendsHeading = [CHR 0xF0, CHR 0x9F, CHR 0x93, CHR 0x88] @ '' EMERGING TRENDS:'' @ newline"

definition problemsHeading :: string where
  "problemsHeading = [CHR 0xF0, CHR 0x9F, CHR 0x94, CHR 0x8D] @ '' IDENTIFIED PROBLEMS:'' @ newline"

definition nothingFound :: string where
  "nothingFound = ''No significant trends or problems identified in the current data.'' @ newline"

definition reportFooter :: string where
  "reportFooter = newline @ ''=== END OF REPORT ==='' @ newline"

text \<open>Lines 276 to 305 of \<^verbatim>\<open>generateReport\<close>, from the two collections to the text.\<close>

definition renderReport :: "env \<Rightarrow> int \<Rightarrow> json list \<Rightarrow> json list \<Rightarrow> error + string" where
  "renderReport env days trends problems =
     (let report0 = reportHeader days
      in case (if length trends > 0
               then forEachAppend (trendLines env) trends 0 (report0 @ trendsHeading)
               else Inr report0) of
           Inl e \<Rightarrow> Inl e
         | Inr report1 \<Rightarrow>
             (case (if length problems > 0
                    then forEachAppend (problemLines env) problems 0 (report1 @ problemsHeading)
                    else Inr report1) of
                Inl e \<Rightarrow> Inl e
              | Inr report2 \<Rightarrow>
                  (let report3 = (if length trends = 0 \<and> length problems = 0
                                  then report2 @ nothingFound else report2)
                   in Inr (report3 @ reportFooter))))"

section \<open>Two analyses at the same time\<close>

text \<open>
  \<^verbatim>\<open>generateReport\<close> starts both analyses and awaits them with \<^verbatim>\<open>Promise.all\<close>. An
  \<^verbatim>\<open>async\<close> function runs until its next \<^verbatim>\<open>await\<close> and is resumed when what it awaits
  is settled; between two \<^verbatim>\<open>await\<close>s of one analysis nothing of the other runs. A task
  is a started analysis: what it awaits, the instant at which that is settled, and what
  its local variables hold there; or its result.
  \<^item> \<open>AwaitingQuery due cutoff found\<close>: the query of \<^verbatim>\<open>getRecentPosts\<close>, with the cutoff
    computed before it and the answer of the repository;
  \<^item> \<open>AwaitingResponse due posts attempt response\<close>: the request of an attempt;
  \<^item> \<open>AwaitingTimer due posts attempt\<close>: the timer after a failed attempt;
  \<^item> \<open>Settled result\<close>: the analysis has returned or thrown.
\<close>

datatype task =
    AwaitingQuery int int "RedditPost list option"
  | AwaitingResponse int "RedditPost list" int "string option"
  | AwaitingTimer int "RedditPost list" int
  | Settled "error + json list"

text \<open>
  \<^verbatim>\<open>analyzeTrends(days)\<close> or \<^verbatim>\<open>analyzeProblems(days)\<close> up to the \<^verbatim>\<open>await\<close> in
  \<^verbatim>\<open>getRecentPosts\<close>: the cutoff is computed and the query is sent.
\<close>

definition startAnalysis :: "env \<Rightarrow> int \<Rightarrow> state \<Rightarrow> task \<times> state" where
  "startAnalysis env days st =
     (let cutoff = cutoffTimestamp env (now st) days;
          (latency, found) = findAll env (queries st)
      in (AwaitingQuery (now st + latency) cutoff found, st\<lparr> queries := Suc (queries st) \<rparr>))"

text \<open>
  The head of the loop and the body of an attempt up to its \<^verbatim>\<open>await\<close>: the request is
  sent, or the loop is over and the function returns \<^verbatim>\<open>[]\<close>.
\<close>

definition request :: "env \<Rightarrow> kind \<Rightarrow> RedditPost list \<Rightarrow> int \<Rightarrow> state \<Rightarrow> task \<times> state" where
  "request env k posts attempt st =
     (if attempt \<le> maxRetries then
        (let (latency, response) = generateContent env (calls st)
         in (AwaitingResponse (now st + latency) posts attempt response,
             (emit (Requested k attempt) st)\<lparr> calls := Suc (calls st) \<rparr>))
      else (Settled (Inr []), st))"

text \<open>
  What an attempt makes of its response (lines 161 to 169): \<^term>\<open>None\<close> is control
  reaching the \<^verbatim>\<open>catch\<close> block.
\<close>

definition decodeResponse :: "env \<Rightarrow> string option \<Rightarrow> json list option" where
  "decodeResponse env response =
     (case response of
        None \<Rightarrow> None
      | Some text \<Rightarrow>
          (case JSON_parse env (stripFence text) of
             None \<Rightarrow> None
           | Some decoded \<Rightarrow> Some (case decoded of JArray items \<Rightarrow> items | _ \<Rightarrow> [])))"

text \<open>
  A task is resumed, in a state whose clock is the instant at which it was due, and
  runs to its next \<^verbatim>\<open>await\<close> or to its end.
  \<^item> After the query: the rejection is thrown on; an empty window is answered with
    \<^verbatim>\<open>[]\<close>; otherwise the guard of the breaker is read and the first request is sent.
  \<^item> After a response: a decoded response closes the breaker and is returned; a failed
    attempt is logged, and either it was the last one, which opens the breaker and
    returns the fallback, or the timer is set.
  \<^item> After the timer: the next turn of the loop.
\<close>

definition resume :: "env \<Rightarrow> kind \<Rightarrow> task \<Rightarrow> state \<Rightarrow> task \<times> state" where
  "resume env k t st =
     (case t of
        AwaitingQuery due cutoff found \<Rightarrow>
          (case found of
             None \<Rightarrow> (Settled (Inl ProviderFailure), st)
           | Some all \<Rightarrow>
               (let posts = filter (\<lambda>post. created_utc post \<ge> cutoff) all
                in if length posts = 0 then (Settled (Inr []), st)
                   else if circuitBreakerRefuses st
                   then (case useFallback k posts (emit (BreakerRefused k) st) of
                           (result, st1) \<Rightarrow> (Settled (Inr result), st1))
                   else request env k posts 1 st))
      | AwaitingResponse due posts attempt response \<Rightarrow>
          (case decodeResponse env response of
             Some result \<Rightarrow> (Settled (Inr result), closeCircuitBreaker k st)
           | None \<Rightarrow>
               (let st1 = emit (AttemptFailed k attempt) st
                in if attempt = maxRetries
                   then (case useFallback k posts (openCircuitBreaker k st1) of
                           (result, st2) \<Rightarrow> (Settled (Inr result), st2))
                   else (AwaitingTimer (now st1 + retryDelay * attempt) posts attempt,
                         emit (Waited k (retryDelay * attempt)) st1)))
      | AwaitingTimer due posts attempt \<Rightarrow> request env k posts (attempt + 1) st
      | Settled result \<Rightarrow> (Settled result, st))"

text \<open>The instant at which a task is due to be resumed.\<close>

fun dueTime :: "task \<Rightarrow> int option" where
  "dueTime (AwaitingQuery due cutoff found) = Some due"
| "dueTime (AwaitingResponse due posts attempt response) = Some due"
| "dueTime (AwaitingTimer due posts attempt) = Some due"
| "dueTime (Settled result) = None"

text \<open>
  The event loop resumes the task that is due first; when both are due at the same
  instant the environment tells which one goes first.
\<close>

definition nextTask :: "env \<Rightarrow> task \<Rightarrow> task \<Rightarrow> (kind \<times> int) option" where
  "nextTask env t p =
     (case (dueTime t, dueTime p) of
        (None, None) \<Rightarrow> None
      | (Some a, None) \<Rightarrow> Some (Trends, a)
      | (None, Some b) \<Rightarrow> Some (Problems, b)
      | (Some a, Some b) \<Rightarrow>
          if a < b then Some (Trends, a)
          else if b < a then Some (Problems, b)
          else if trendsFirst env a then Some (Trends, a) else Some (Problems, b))"

text \<open>
  One turn of the event loop on the trend task, the problem task and the state of the
  service; \<^term>\<open>None\<close> when both analyses are settled.
\<close>

definition turn :: "env \<Rightarrow> task \<times> task \<times> state \<Rightarrow> (task \<times> task \<times> state) option" where
  "turn env c =
     (case c of
        (t, p, st) \<Rightarrow>
          (case nextTask env t p of
             None \<Rightarrow> None
           | Some (k, due) \<Rightarrow>
               (case k of
                  Trends \<Rightarrow>
                    (case resume env Trends t (st\<lparr> now := due \<rparr>) of
                       (t', st') \<Rightarrow> Some (t', p, st'))
                | Problems \<Rightarrow>
                    (case resume env Problems p (st\<lparr> now := due \<rparr>) of
                       (p', st') \<Rightarrow> Some (t, p', st')))))"

text \<open>
  The turns a task has left at most: one after the query, and two for each attempt
  that is left.
\<close>

fun turnsLeft :: "task \<Rightarrow> nat" where
  "turnsLeft (AwaitingQuery due cutoff found) = 2 * nat maxRetries + 3"
| "turnsLeft (AwaitingResponse due posts attempt response) = 2 * nat (maxRetries + 1 - attempt) + 2"
| "turnsLeft (AwaitingTimer due posts attempt) = 2 * nat (maxRetries + 1 - attempt) + 1"
| "turnsLeft (Settled result) = 0"

function eventLoop :: "env \<Rightarrow> task \<times> task \<times> state \<Rightarrow> task \<times> task \<times> state" where
  "eventLoop env c = (case turn env c of None \<Rightarrow> c | Some c' \<Rightarrow> eventLoop env c')"
  by pat_completeness auto
termination
  by (relation "measure (\<lambda>(env, t, p, st). turnsLeft t + turnsLeft p)")
    (auto simp: turn_def nextTask_def resume_def request_def maxRetries_def Let_def
      split: task.splits option.splits if_splits prod.splits kind.splits)

declare eventLoop.simps [simp del]

text \<open>The result of a settled task.\<close>

fun settled :: "task \<Rightarrow> error + json list" where
  "settled (Settled result) = result"

text \<open>
  \<^verbatim>\<open>generateReport\<close>. Both analyses are started, the trend analysis first, and the event
  loop runs them. \<^verbatim>\<open>Promise.all\<close> rejects when one of them rejects, and the \<^verbatim>\<open>catch\<close>
  block throws the error on; otherwise the report is synthesized from the two
  collections. The state returned is the state of the service when both analyses have
  settled.
\<close>

definition generateReport :: "env \<Rightarrow> int \<Rightarrow> state \<Rightarrow> (error + string) \<times> state" where
  "generateReport env days st =
     (let (t0, st1) = startAnalysis env days st;
          (p0, st2) = startAnalysis env days st1;
          (t, p, st3) = eventLoop env (t0, p0, st2)
      in (case settled t of
            Inl e \<Rightarrow> Inl e
          | Inr trends \<Rightarrow>
              (case settled p of
                 Inl e \<Rightarrow> Inl e
               | Inr problems \<Rightarrow> renderReport env days trends problems),
          st3))"

section \<open>Notions of the specification\<close>

subsection \<open>For the fallback analyzers\<close>

text \<open>
  The size of the group of a subreddit label, the size of the largest group, and the
  mean score, as the specification of the fallback trend analyzer names them.
\<close>

definition groupCount :: "RedditPost list \<Rightarrow> string \<Rightarrow> nat" where
  "groupCount posts s = length (filter (\<lambda>p. subreddit p = s) posts)"

definition topGroupCount :: "RedditPost list \<Rightarrow> nat" where
  "topGroupCount posts = Max (set (map (\<lambda>p. groupCount posts (subreddit p)) posts))"

definition meanScore :: "RedditPost list \<Rightarrow> rat" where
  "meanScore posts = of_int (sum_list (map score posts)) / of_nat (length posts)"

text \<open>The count a dictionary holds for a label, zero when it holds none.\<close>

definition countOf :: "(string \<times> val) list \<Rightarrow> string \<Rightarrow> nat" where
  "countOf acc k = (case map_of acc k of Some (Num c) \<Rightarrow> c | _ \<Rightarrow> 0)"

text \<open>A dictionary all of whose values are counts.\<close>

definition counts :: "(string \<times> val) list \<Rightarrow> bool" where
  "counts acc = (\<forall>(k, v) \<in> set acc. \<exists>c. v = Num c)"

text \<open>
  The labels that name a property of \<^verbatim>\<open>Object.prototype\<close>, and the record lists none
  of whose subreddit labels is one of them.
\<close>

definition inheritedNames :: "string list" where
  "inheritedNames = ''__proto__'' # map fst prototypeFunctions"

definition ordinaryLabels :: "RedditPost list \<Rightarrow> bool" where
  "ordinaryLabels posts = list_all (\<lambda>p. subreddit p \<notin> set inheritedNames) posts"

text \<open>
  The numbers that can be added up exactly, starting from \<open>s\<close>: the running sum stays
  below \<open>2\<^sup>5\<^sup>3\<close> in absolute value, so that it is a double at every step.
\<close>

fun exactSum :: "int \<Rightarrow> int list \<Rightarrow> bool" where
  "exactSum s [] = True"
| "exactSum s (x # xs) = (\<bar>s + x\<bar> < 2 ^ 53 \<and> exactSum (s + x) xs)"

text \<open>
  A text contains a keyword case-insensitively when one of its contiguous parts equals
  the keyword up to the case of the letters. A record matches when its title or its
  body text contains one of the keywords so.
\<close>

definition containsIgnoringCase :: "string \<Rightarrow> string \<Rightarrow> bool" where
  "containsIgnoringCase text keyword =
     list_ex (\<lambda>part. toLowerCase part = toLowerCase keyword) (sublists text)"

definition matchesKeyword :: "RedditPost \<Rightarrow> bool" where
  "matchesKeyword post =
     list_ex (\<lambda>keyword.
        containsIgnoringCase (title post) keyword
        \<or> (case selftext post of
              None \<Rightarrow> False
            | Some body \<Rightarrow> containsIgnoringCase body keyword))
       problemKeywords"

definition matchingRecords :: "RedditPost list \<Rightarrow> RedditPost list" where
  "matchingRecords posts = filter matchesKeyword posts"

text \<open>The keyword-based insights of a collection.\<close>

definition keywordInsights :: "ProblemAnalysis list \<Rightarrow> ProblemAnalysis list" where
  "keywordInsights insights =
     filter (\<lambda>i. problem i = ''User-reported issues and difficulties'') insights"

subsection \<open>For the report\<close>

text \<open>
  The lines of a text, and the lines that start a numbered list item: a decimal
  numeral, a full stop and a space.
\<close>

fun linesOf :: "string \<Rightarrow> string list" where
  "linesOf [] = [[]]"
| "linesOf (c # cs) =
     (if c = CHR 0x0A then [] # linesOf cs
      else (case linesOf cs of [] \<Rightarrow> [[c]] | l # ls \<Rightarrow> (c # l) # ls))"

definition isNumberedItem :: "string \<Rightarrow> bool" where
  "isNumberedItem line =
     (takeWhile isDigit line \<noteq> [] \<and> prefix ''. '' (dropWhile isDigit line))"

text \<open>A result that is not an exception, and the text of a result.\<close>

definition succeeded :: "error + 'a \<Rightarrow> bool" where
  "succeeded r = (case r of Inl e \<Rightarrow> False | Inr v \<Rightarrow> True)"

definition textOf :: "error + string \<Rightarrow> string" where
  "textOf r = (case r of Inl e \<Rightarrow> [] | Inr lines \<Rightarrow> lines)"

text \<open>
  The text of each item of a collection as its callback renders it, and the two blocks
  of the report as the specification describes them: a heading and the numbered items,
  or nothing for an empty collection.
\<close>

definition itemTexts :: "(nat \<Rightarrow> json \<Rightarrow> error + string) \<Rightarrow> json list \<Rightarrow> string list" where
  "itemTexts f items = map (\<lambda>(index, item). textOf (f index item)) (zip [0..<length items] items)"

definition trendsBlock :: "env \<Rightarrow> json list \<Rightarrow> string" where
  "trendsBlock env trends =
     (if trends = [] then [] else trendsHeading @ concat (itemTexts (trendLines env) trends))"

definition problemsBlock :: "env \<Rightarrow> json list \<Rightarrow> string" where
  "problemsBlock env problems =
     (if problems = [] then [] else problemsHeading @ concat (itemTexts (problemLines env) problems))"

text \<open>The report of two empty collections.\<close>

definition emptyReport :: "int \<Rightarrow> string" where
  "emptyReport days = reportHeader days @ nothingFound @ reportFooter"


definition rendersProblem :: "env \<Rightarrow> json \<Rightarrow> bool" where
  "rendersProblem env p = succeeded (problemLines env 0 p)"

subsection \<open>For the breaker and the retries\<close>

text \<open>
  The \<open>n\<close>-th response decodes when the request returns a text that \<^verbatim>\<open>JSON.parse\<close>
  accepts once the fence is stripped; \<open>decodedItems\<close> is then what the attempt returns.
  It is undecodable when the request returns a text that \<^verbatim>\<open>JSON.parse\<close> rejects.
\<close>

definition responseDecodes :: "env \<Rightarrow> nat \<Rightarrow> bool" where
  "responseDecodes env n =
     (case snd (generateContent env n) of
        None \<Rightarrow> False
      | Some text \<Rightarrow> JSON_parse env (stripFence text) \<noteq> None)"

definition decodedItems :: "env \<Rightarrow> nat \<Rightarrow> json list" where
  "decodedItems env n =
     (case snd (generateContent env n) of
        None \<Rightarrow> []
      | Some text \<Rightarrow>
          (case JSON_parse env (stripFence text) of
             Some (JArray items) \<Rightarrow> items
           | _ \<Rightarrow> []))"

definition undecodable :: "env \<Rightarrow> nat \<Rightarrow> bool" where
  "undecodable env n =
     (case snd (generateContent env n) of
        None \<Rightarrow> False
      | Some text \<Rightarrow> JSON_parse env (stripFence text) = None)"

text \<open>The state when the request of an attempt has been answered.\<close>

definition afterRequest :: "env \<Rightarrow> kind \<Rightarrow> int \<Rightarrow> state \<Rightarrow> state" where
  "afterRequest env k attempt st =
     (emit (Requested k attempt) st)
       \<lparr> calls := Suc (calls st), now := now st + fst (generateContent env (calls st)) \<rparr>"

text \<open>The state when a failed attempt has been logged and the wait before the next is over.\<close>

definition afterFailure :: "env \<Rightarrow> kind \<Rightarrow> int \<Rightarrow> state \<Rightarrow> state" where
  "afterFailure env k attempt st =
     sleep k (retryDelay * attempt) (emit (AttemptFailed k attempt) (afterRequest env k attempt st))"

text \<open>The events a run has added to those of the state it started from.\<close>

definition newEvents :: "state \<Rightarrow> state \<Rightarrow> event list" where
  "newEvents st st' = drop (length (events st)) (events st')"

text \<open>Two states hold the same breaker.\<close>

definition sameBreaker :: "state \<Rightarrow> state \<Rightarrow> bool" where
  "sameBreaker a b =
     (circuitBreakerOpen a = circuitBreakerOpen b
      \<and> circuitBreakerResetTime a = circuitBreakerResetTime b)"


subsection \<open>For the two analyses of a report\<close>

text \<open>
  The window an analysis started in the state \<open>st\<close> fetches with the \<open>n\<close>-th query:
  the records the repository returns that are not older than the cutoff, or
  \<^term>\<open>None\<close> when the repository rejects.
\<close>

definition fetchedWindow :: "env \<Rightarrow> int \<Rightarrow> state \<Rightarrow> nat \<Rightarrow> RedditPost list option" where
  "fetchedWindow env days st n =
     (case snd (findAll env n) of
        None \<Rightarrow> None
      | Some found \<Rightarrow>
          Some (filter (\<lambda>post. created_utc post \<ge> cutoffTimestamp env (now st) days) found))"


text \<open>
  The event loop with one analysis of kind \<open>k\<close> to run, the other one having settled
  with \<open>r\<close>; and the function that describes an analysis of kind \<open>k\<close> running on its
  own.
\<close>

definition alone :: "kind \<Rightarrow> error + json list \<Rightarrow> task \<Rightarrow> state \<Rightarrow> task \<times> task \<times> state" where
  "alone k r t st = (case k of Trends \<Rightarrow> (t, Settled r, st) | Problems \<Rightarrow> (Settled r, t, st))"

definition analysis :: "kind \<Rightarrow> env \<Rightarrow> int \<Rightarrow> state \<Rightarrow> (error + json list) \<times> state" where
  "analysis k = (case k of Trends \<Rightarrow> analyzeTrends | Problems \<Rightarrow> analyzeProblems)"

section \<open>Sample inputs\<close>

subsection \<open>Records\<close>

definition scenarioPost :: "string \<Rightarrow> int \<Rightarrow> RedditPost" where
  "scenarioPost s n = \<lparr> id = ''p'', title = ''Weekly thread'', author = ''u'', subreddit = s,
     score = n, num_comments = 4, created_utc = 1700000000, reddit_url = ''https://reddit.com/p'',
     external_url = None, selftext = None \<rparr>"

text \<open>Three records, two in \<open>saas\<close> and one in \<open>startups\<close>, of mean score 150.\<close>

definition scenarioPosts :: "RedditPost list" where
  "scenarioPosts = [scenarioPost ''saas'' 100, scenarioPost ''startups'' 200, scenarioPost ''saas'' 150]"

definition helpPost :: RedditPost where
  "helpPost = \<lparr> id = ''h'', title = ''Need HELP with billing'', author = ''u'', subreddit = ''saas'',
     score = 12, num_comments = 7, created_utc = 1700000000, reddit_url = ''https://reddit.com/h'',
     external_url = None, selftext = Some ''Invoices are wrong'' \<rparr>"

definition plainPost :: RedditPost where
  "plainPost = \<lparr> id = ''q'', title = ''Launch day'', author = ''u'', subreddit = ''startups'',
     score = 30, num_comments = 9, created_utc = 1700000000, reddit_url = ''https://reddit.com/q'',
     external_url = None, selftext = None \<rparr>"

text \<open>Forty records, twenty-three in \<open>saas\<close> and seventeen in \<open>startups\<close>, of score 10.\<close>

definition fortyPosts :: "RedditPost list" where
  "fortyPosts = replicate 23 (scenarioPost ''saas'' 10) @ replicate 17 (scenarioPost ''startups'' 10)"

text \<open>Twenty records of which fifteen match a keyword.\<close>

definition twentyPosts :: "RedditPost list" where
  "twentyPosts = replicate 15 helpPost @ replicate 5 plainPost"

text \<open>The insights of the fallback trend analyzer on the scenario.\<close>

definition scenarioTrends :: "json list" where
  "scenarioTrends = map trendJson (getFallbackTrendAnalysis scenarioPosts)"

subsection \<open>Environments\<close>

text \<open>
  \<open>sampleParse\<close> agrees with \<^verbatim>\<open>JSON.parse\<close> on the texts used below: three arrays, an
  object, and a text that is not JSON. In a sample environment every request takes
  800 ms and every query 40 ms, days are days of 86400 seconds, and of two analyses
  due at the same instant the trend analysis is resumed first.
\<close>

definition sampleParse :: "string \<Rightarrow> json option" where
  "sampleParse text =
     (if text = ''[]'' then Some (JArray [])
      else if text = ''[null]'' then Some (JArray [JNull])
      else if text = ''[{}]'' then Some (JArray [JObject []])
      else if text = ''{}'' then Some (JObject [])
      else None)"

definition sampleEnv :: "(nat \<Rightarrow> string option) \<Rightarrow> (nat \<Rightarrow> RedditPost list option) \<Rightarrow> env" where
  "sampleEnv responses windows =
     \<lparr> JSON_parse = sampleParse,
       generateContent = (\<lambda>n. (800, responses n)),
       findAll = (\<lambda>n. (40, windows n)),
       cutoffTimestamp = (\<lambda>t days. (t - days * 86400000) div 1000),
       fractionToString = (\<lambda>q. show_int (fst (quotient_of q)) @ ''/'' @ show_int (snd (quotient_of q))),
       trendsFirst = (\<lambda>t. True) \<rparr>"

text \<open>The external analyzer is down and the window is that of the scenario.\<close>

definition outageEnv :: env where
  "outageEnv = sampleEnv (\<lambda>n. None) (\<lambda>n. Some scenarioPosts)"

text \<open>The analyzer answers twice with a text that is not JSON and then with \<^verbatim>\<open>[{}]\<close>.\<close>

definition flakyEnv :: env where
  "flakyEnv = sampleEnv (\<lambda>n. if n < 2 then Some ''oops'' else Some ''[{}]'')
                (\<lambda>n. Some scenarioPosts)"

text \<open>The analyzer always answers with a text that is not JSON.\<close>

definition garbledEnv :: env where
  "garbledEnv = sampleEnv (\<lambda>n. Some ''oops'') (\<lambda>n. Some scenarioPosts)"

text \<open>The analyzer answers with \<^verbatim>\<open>{}\<close>, which decodes to a value that is not an array.\<close>

definition objectEnv :: env where
  "objectEnv = sampleEnv (\<lambda>n. Some ''{}'') (\<lambda>n. Some scenarioPosts)"


text \<open>
  The first request fails, the second is answered with \<^verbatim>\<open>[]\<close> and every later one
  with \<^verbatim>\<open>[{}]\<close>.
\<close>

definition mixedEnv :: env where
  "mixedEnv = sampleEnv (\<lambda>n. if n = 0 then Some ''oops'' else if n = 1 then Some ''[]'' else Some ''[{}]'')
                (\<lambda>n. Some scenarioPosts)"


subsection \<open>States\<close>

text \<open>A service just constructed, and one so much later that the records of the
  scenario are older than thirty days.\<close>

definition startState :: state where
  "startState = \<lparr> circuitBreakerOpen = False, circuitBreakerResetTime = 0,
     now = 1700000100000, calls = 0, queries = 0, events = [] \<rparr>"

definition lateState :: state where
  "lateState = startState\<lparr> now := 1740000000000 \<rparr>"

text \<open>The state in which a trend analysis has exhausted its attempts, and that state
  one minute and five minutes later.\<close>

definition exhaustedState :: state where
  "exhaustedState = snd (analyze garbledEnv Trends scenarioPosts startState)"

definition minuteLater :: state where
  "minuteLater = exhaustedState\<lparr> now := now exhaustedState + 60000 \<rparr>"

definition cooledDown :: state where
  "cooledDown = exhaustedState\<lparr> now := now exhaustedState + 300000 \<rparr>"

text \<open>The states in which a problem analysis has exhausted its attempts, and in which
  a trend analysis has succeeded at its third attempt.\<close>

definition problemsExhausted :: state where
  "problemsExhausted = snd (analyzeProblemsWithGemini garbledEnv scenarioPosts startState)"

definition trendsSucceeded :: state where
  "trendsSucceeded = snd (analyzeWithGemini flakyEnv scenarioPosts startState)"


section \<open>The fallback trend analyzer\<close>

subsection \<open>Integers are doubles\<close>

lemma bitLength_le: "0 \<le> i \<Longrightarrow> i < 2 ^ n \<Longrightarrow> bitLength i \<le> int n"
proof (induction n arbitrary: i)
  case 0
  then have "i = 0" by simp
  then show ?case by (simp add: bitLength.simps)
next
  case (Suc n)
  show ?case
  proof (cases "i \<le> 0")
    case True
    then show ?thesis by (simp add: bitLength.simps)
  next
    case False
    have "i div 2 < 2 ^ n" "0 \<le> i div 2"
      using Suc.prems by auto
    then have "bitLength (i div 2) \<le> int n"
      using Suc.IH by simp
    then show ?thesis
      using False by (subst bitLength.simps) simp
  qed
qed

lemma bitLength_one: "bitLength 1 = 1"
  by (simp add: bitLength.simps)

lemma roundHalfEven_one: "roundHalfEven n 1 = n"
  by (simp add: roundHalfEven_def)

lemma toDouble_nat:
  assumes pos: "0 < i" and small: "i < 2 ^ 53"
  shows "toDouble (of_int i) = of_int i"
proof -
  have q: "quotient_of \<bar>of_int i\<bar> = (i, 1)"
    using pos by simp
  have "bitLength i \<le> 53"
    using bitLength_le [of i 53] pos small by simp
  then have e: "exponentOf i 1 \<le> 0"
    by (simp add: exponentOf_def Let_def bitLength_one)
  define k where "k = nat (- exponentOf i 1)"
  have ek: "exponentOf i 1 = - int k"
    using e by (simp add: k_def)
  have m: "significand i 1 (- int k) = i * 2 ^ k" "significand i 1 0 = i"
    by (simp_all add: significand_def roundHalfEven_one)
  have "toDouble (of_int i) = sgn (of_int i :: rat) * of_int i"
    using pos by (simp add: toDouble_def q ek m Let_def)
  then show ?thesis
    using pos by simp
qed

lemma toDouble_minus: "toDouble (- x) = - toDouble x"
  by (simp add: toDouble_def Let_def case_prod_beta)

lemma toDouble_int:
  assumes "\<bar>i\<bar> < 2 ^ 53"
  shows "toDouble (of_int i) = of_int i"
proof -
  consider "i = 0" | "0 < i" | "i < 0" by linarith
  then show ?thesis
  proof cases
    case 1
    then show ?thesis by (simp add: toDouble_def)
  next
    case 2
    then show ?thesis using assms by (intro toDouble_nat) simp_all
  next
    case 3
    then have "toDouble (of_int (- i)) = of_int (- i)"
      using assms by (intro toDouble_nat) simp_all
    then show ?thesis
      by (simp add: toDouble_minus)
  qed
qed

lemma foldl_dadd_exact:
  "exactSum s xs \<Longrightarrow> foldl dadd (of_int s) (map of_int xs) = of_int (s + sum_list xs)"
proof (induction xs arbitrary: s)
  case Nil
  then show ?case by simp
next
  case (Cons x xs)
  have step: "dadd (of_int s) (of_int x) = of_int (s + x)"
    using Cons.prems toDouble_int [of "s + x"] by (simp add: dadd_def)
  have "foldl dadd (of_int (s + x)) (map of_int xs) = of_int (s + x + sum_list xs)"
    using Cons.prems by (intro Cons.IH) simp
  then show ?case
    by (simp only: list.map foldl_Cons step sum_list.Cons add.assoc)
qed

lemma avgScore_exact:
  assumes "posts \<noteq> []" and "exactSum 0 (map score posts)"
  shows "avgScore posts = Some (toDouble (meanScore posts))"
  using foldl_dadd_exact [OF assms(2)] assms(1)
  by (simp add: avgScore_def mean_def meanScore_def ddiv_def)


subsection \<open>The dictionary\<close>

lemma assign_keys: "fst ` set (assign acc k v) = insert k (fst ` set acc)"
  by (induction acc k v rule: assign.induct) auto

lemma assign_distinct: "distinct (map fst acc) \<Longrightarrow> distinct (map fst (assign acc k v))"
  by (induction acc k v rule: assign.induct) (auto simp: assign_keys)

lemma assign_values: "(s, w) \<in> set (assign acc k v) \<Longrightarrow> w = v \<or> (s, w) \<in> set acc"
  by (induction acc k v rule: assign.induct) (auto split: if_splits)

lemma map_of_assign: "map_of (assign acc k v) = (map_of acc)(k \<mapsto> v)"
  by (induction acc k v rule: assign.induct) auto

lemma countKey_ordinary:
  assumes k: "k \<notin> set inheritedNames" and c: "counts acc"
  shows "countKey acc k = assign acc k (Num (countOf acc k + 1))"
proof -
  have np: "k \<noteq> ''__proto__''" and nf: "map_of prototypeFunctions k = None"
    using k by (auto simp: inheritedNames_def map_of_eq_None_iff)
  have "plusOne acc k = Num (countOf acc k + 1)"
  proof (cases "map_of acc k")
    case None
    then show ?thesis by (simp add: plusOne_def countOf_def nf)
  next
    case (Some v)
    then have "(k, v) \<in> set acc" by (rule map_of_SomeD)
    then obtain n where "v = Num n" using c by (auto simp: counts_def)
    then show ?thesis using Some by (simp add: plusOne_def countOf_def)
  qed
  then show ?thesis
    using np by (simp add: countKey_def)
qed

lemma foldl_countKey:
  assumes "distinct (map fst acc)" and "counts acc" and "\<forall>k \<in> set ks. k \<notin> set inheritedNames"
  shows "distinct (map fst (foldl countKey acc ks)) \<and> counts (foldl countKey acc ks) \<and>
   fst ` set (foldl countKey acc ks) = fst ` set acc \<union> set ks \<and>
   (\<forall>s. countOf (foldl countKey acc ks) s = countOf acc s + count_list ks s)"
  using assms
proof (induction ks arbitrary: acc)
  case Nil
  then show ?case by simp
next
  case (Cons k ks)
  have step: "countKey acc k = assign acc k (Num (countOf acc k + 1))"
    using Cons.prems by (intro countKey_ordinary) simp_all
  have d: "distinct (map fst (countKey acc k))"
    using Cons.prems(1) by (simp add: step assign_distinct)
  have c: "counts (countKey acc k)"
    using Cons.prems(2) by (auto simp: step counts_def dest: assign_values)
  have o: "\<forall>k \<in> set ks. k \<notin> set inheritedNames"
    using Cons.prems(3) by simp
  have co: "countOf (countKey acc k) s = (if s = k then countOf acc k + 1 else countOf acc s)" for s
    by (simp add: step countOf_def map_of_assign)
  have ks: "fst ` set (countKey acc k) = insert k (fst ` set acc)"
    by (simp add: step assign_keys)
  from Cons.IH [OF d c o] show ?case
    by (simp add: co ks)
qed

lemma subredditCounts_fold:
  "subredditCounts posts = foldl countKey [] (map subreddit posts)"
  by (simp add: subredditCounts_def foldl_map)

lemma count_list_subreddit: "count_list (map subreddit posts) s = groupCount posts s"
  by (induction posts) (auto simp: groupCount_def)

lemma subredditCounts_facts:
  assumes "ordinaryLabels posts"
  shows "distinct (map fst (subredditCounts posts))"
    "counts (subredditCounts posts)"
    "fst ` set (subredditCounts posts) = subreddit ` set posts"
    "countOf (subredditCounts posts) s = groupCount posts s"
proof -
  have o: "\<forall>k \<in> set (map subreddit posts). k \<notin> set inheritedNames"
    using assms by (auto simp: ordinaryLabels_def list_all_iff)
  have c: "counts []" by (simp add: counts_def)
  show "distinct (map fst (subredditCounts posts))" "counts (subredditCounts posts)"
    "fst ` set (subredditCounts posts) = subreddit ` set posts"
    "countOf (subredditCounts posts) s = groupCount posts s"
    using foldl_countKey [OF _ c o]
    by (simp_all add: subredditCounts_fold countOf_def count_list_subreddit)
qed

lemma subredditCounts_entry:
  assumes o: "ordinaryLabels posts" and e: "(s, v) \<in> set (subredditCounts posts)"
  shows "v = Num (groupCount posts s) \<and> s \<in> subreddit ` set posts"
proof -
  note f = subredditCounts_facts [OF o]
  obtain c where v: "v = Num c"
    using f(2) e by (auto simp: counts_def)
  have "map_of (subredditCounts posts) s = Some v"
    using f(1) e by simp
  then have "countOf (subredditCounts posts) s = c"
    by (simp add: countOf_def v)
  moreover have "s \<in> fst ` set (subredditCounts posts)"
    using e by force
  ultimately show ?thesis
    using f(3) f(4) [of s] by (simp add: v)
qed

lemma set_Object_entries: "set (Object_entries obj) = set obj"
  by (auto simp: Object_entries_def)

subsection \<open>The sort\<close>

lemma insertBy_insort:
  assumes "\<forall>y \<in> set ys. ((case compare x y of None \<Rightarrow> 0 | Some v \<Rightarrow> v) \<le> 0) = (f x \<le> f y)"
  shows "insertBy compare x ys = insort_key f x ys"
  using assms by (induction ys) simp_all

lemma Array_sort_sort_key:
  assumes "\<forall>x \<in> set xs. \<forall>y \<in> set xs.
             ((case compare x y of None \<Rightarrow> 0 | Some v \<Rightarrow> v) \<le> 0) = (f x \<le> f y)"
  shows "Array_sort compare xs = sort_key f xs"
  using assms
proof (induction xs)
  case Nil
  then show ?case by (simp add: Array_sort_def)
next
  case (Cons x xs)
  have "Array_sort compare xs = sort_key f xs"
    using Cons by simp
  moreover have "insertBy compare x (sort_key f xs) = insort_key f x (sort_key f xs)"
    using Cons.prems by (intro insertBy_insort) simp
  ultimately show ?case
    by (simp add: Array_sort_def)
qed

lemma sort_key_head:
  assumes "xs \<noteq> []"
  shows "\<exists>x rest. sort_key f xs = x # rest \<and> x \<in> set xs \<and> (\<forall>y \<in> set xs. f x \<le> f y)"
proof -
  have ne: "sort_key f xs \<noteq> []"
    using assms by (metis length_sort length_0_conv)
  then obtain x rest where e: "sort_key f xs = x # rest"
    by (cases "sort_key f xs") auto
  have "sorted (map f (sort_key f xs))"
    by (rule sorted_sort_key)
  then have "\<forall>y \<in> set rest. f x \<le> f y"
    by (simp add: e)
  moreover have "set xs = insert x (set rest)"
    using set_sort [of f xs] by (simp add: e)
  ultimately show ?thesis
    using e by auto
qed

lemma topSubreddits_head:
  assumes ne: "posts \<noteq> []" and o: "ordinaryLabels posts"
  shows "\<exists>top0 rest. topSubreddits posts = top0 # rest \<and> snd top0 = Num (topGroupCount posts)"
proof -
  let ?es = "Object_entries (subredditCounts posts)"
  let ?f = "\<lambda>(k, v). - int (case v of Num c \<Rightarrow> c | Str s \<Rightarrow> 0)"
  note f = subredditCounts_facts [OF o]
  have num: "\<exists>c. snd x = Num c" if "x \<in> set ?es" for x
    using that f(2) by (auto simp: set_Object_entries counts_def)
  have "Array_sort byCountDescending ?es = sort_key ?f ?es"
  proof (rule Array_sort_sort_key, intro ballI)
    fix x y assume "x \<in> set ?es" "y \<in> set ?es"
    then obtain a b where "snd x = Num a" "snd y = Num b"
      using num by blast
    then show "((case byCountDescending x y of None \<Rightarrow> 0 | Some v \<Rightarrow> v) \<le> 0) = (?f x \<le> ?f y)"
      by (cases x; cases y) (simp add: byCountDescending_def)
  qed
  then have ts: "topSubreddits posts = take 3 (sort_key ?f ?es)"
    by (simp add: topSubreddits_def)
  have "fst ` set (subredditCounts posts) \<noteq> {}"
    using ne by (simp add: f(3))
  then have nes: "?es \<noteq> []"
    using set_Object_entries [of "subredditCounts posts"] by auto
  obtain x rest where s: "sort_key ?f ?es = x # rest"
    and xin: "x \<in> set ?es"
    and least: "\<forall>y \<in> set ?es. ?f x \<le> ?f y"
    using sort_key_head [OF nes, of ?f] by blast
  obtain k v where x: "x = (k, v)" by (cases x)
  have xc: "v = Num (groupCount posts k)" "k \<in> subreddit ` set posts"
    using subredditCounts_entry [OF o, of k v] xin
    by (simp_all add: x set_Object_entries)
  have ub: "groupCount posts (subreddit p) \<le> groupCount posts k" if "p \<in> set posts" for p
  proof -
    have "subreddit p \<in> fst ` set (subredditCounts posts)"
      using that by (simp add: f(3))
    then obtain v' where in': "(subreddit p, v') \<in> set (subredditCounts posts)"
      by force
    then have "v' = Num (groupCount posts (subreddit p))"
      using subredditCounts_entry [OF o] by blast
    then show ?thesis
      using least in' by (auto simp: x xc set_Object_entries)
  qed
  have "topGroupCount posts = groupCount posts k"
    unfolding topGroupCount_def
  proof (rule Max_eqI)
    show "finite (set (map (\<lambda>p. groupCount posts (subreddit p)) posts))" by simp
    show "y \<le> groupCount posts k" if "y \<in> set (map (\<lambda>p. groupCount posts (subreddit p)) posts)" for y
      using that ub by auto
    show "groupCount posts k \<in> set (map (\<lambda>p. groupCount posts (subreddit p)) posts)"
      using xc by auto
  qed
  then show ?thesis
    by (simp add: ts s x xc)
qed


subsection \<open>The insights\<close>

lemma scenario_topGroupCount:
  assumes len: "length posts = 3"
    and a: "groupCount posts ''saas'' = 2"
    and b: "groupCount posts ''startups'' = 1"
  shows "topGroupCount posts = 2"
proof -
  let ?B = "filter (\<lambda>p. subreddit p \<noteq> ''saas'') posts"
  have "length (filter (\<lambda>p. subreddit p = ''saas'') posts) + length ?B = length posts"
    using sum_length_filter_compl [of "\<lambda>p. subreddit p = ''saas''" posts] by (simp add: comp_def)
  then have lb: "length ?B = 1"
    using len a by (simp add: groupCount_def)
  then obtain q where B: "?B = [q]"
    by (cases ?B) auto
  have "filter (\<lambda>p. subreddit p = ''startups'') ?B = filter (\<lambda>p. subreddit p = ''startups'') posts"
    by (simp add: conj_commute) (rule filter_cong, auto)
  then have "length (filter (\<lambda>p. subreddit p = ''startups'') [q]) = 1"
    using b by (simp add: groupCount_def B)
  then have q: "subreddit q = ''startups''"
    by (simp split: if_splits)
  have two: "subreddit p = ''saas'' \<or> subreddit p = ''startups''" if "p \<in> set posts" for p
  proof (cases "subreddit p = ''saas''")
    case False
    then have "p \<in> set ?B" using that by simp
    then show ?thesis using q by (simp add: B)
  qed simp
  have "filter (\<lambda>p. subreddit p = ''saas'') posts \<noteq> []"
    using a by (auto simp: groupCount_def)
  then obtain p0 where p0: "p0 \<in> set posts" "subreddit p0 = ''saas''"
    by (auto simp: filter_empty_conv)
  show ?thesis
    unfolding topGroupCount_def
  proof (rule Max_eqI)
    show "finite (set (map (\<lambda>p. groupCount posts (subreddit p)) posts))" by simp
    show "y \<le> 2" if yin: "y \<in> set (map (\<lambda>p. groupCount posts (subreddit p)) posts)" for y
    proof -
      obtain p where p: "p \<in> set posts" "y = groupCount posts (subreddit p)"
        using yin by auto
      from two [OF p(1)] show ?thesis
        using a b p(2) by auto
    qed
    show "2 \<in> set (map (\<lambda>p. groupCount posts (subreddit p)) posts)"
      using p0 a by force
  qed
qed

lemma fallback_trend_run:
  assumes ne: "posts \<noteq> []"
    and labels: "ordinaryLabels posts"
    and scores: "exactSum 0 (map score posts)"
  shows "\<exists>top0. snd top0 = Num (topGroupCount posts)
           \<and> getFallbackTrendAnalysis posts
               = topTrend posts top0
                 # (if toDouble (meanScore posts) > 100
                    then [engagementTrend (toDouble (meanScore posts))] else [])"
proof -
  obtain top0 more where t: "topSubreddits posts = top0 # more" "snd top0 = Num (topGroupCount posts)"
    using topSubreddits_head [OF ne labels] by blast
  have av: "avgScore posts = Some (toDouble (meanScore posts))"
    using ne scores by (rule avgScore_exact)
  have "getFallbackTrendAnalysis posts
          = topTrend posts top0
            # (if toDouble (meanScore posts) > 100
               then [engagementTrend (toDouble (meanScore posts))] else [])"
    by (simp add: getFallbackTrendAnalysis_def t av)
  then show ?thesis
    using t(2) by blast
qed

lemma scenario_rounding:
  "Math_round (dmul (ddiv (of_nat 2) (of_nat 3)) 100) = 67"
  "toDouble 150 = 150"
  "Math_round (dmul (ddiv 150 100) 10) = 15"
  by code_simp+

text \<open>
  Claim C7, as the code has it. For every non-empty record list whose subreddit labels
  are not names of properties of \<open>Object.prototype\<close> and whose scores add up exactly,
  the fallback trend analyzer emits first the insight of the largest subreddit group,
  with confidence 60, competition level Medium, entry cost Low and time period 30 days.
  Its growth percentage is \<open>Math.round\<close> of \<open>(topGroupCount / totalRecords) * 100\<close> as
  double arithmetic computes it, the quotient rounded to a double and then the
  product; this is not always \<open>round (topGroupCount / totalRecords * 100)\<close>. Exactly
  when the mean score, as a double, exceeds 100 there is a second insight, whose growth
  percentage is \<open>Math.round\<close> of \<open>(meanScore / 100) * 10\<close> in double arithmetic, with
  confidence 70. For three records, two in \<open>saas\<close> and one in \<open>startups\<close>, of mean score
  150, the growth percentages are 67 and 15, in that order.
\<close>

theorem fallback_trend_insights:
  assumes ne: "posts \<noteq> []"
    and labels: "ordinaryLabels posts"
    and scores: "exactSum 0 (map score posts)"
  shows "\<exists>t rest. getFallbackTrendAnalysis posts = t # rest
           \<and> growthPercentage t
               = Some (Math_round (dmul (ddiv (of_nat (topGroupCount posts)) (of_nat (length posts))) 100))
           \<and> confidence t = 60 \<and> competitionLevel t = ''Medium'' \<and> entryCost t = ''Low''
           \<and> timePeriod t = ''30 days''
           \<and> (if toDouble (meanScore posts) > 100
               then \<exists>h. rest = [h]
                      \<and> growthPercentage h
                          = Some (Math_round (dmul (ddiv (toDouble (meanScore posts)) 100) 10))
                      \<and> confidence h = 70
               else rest = [])
           \<and> (length posts = 3 \<and> groupCount posts ''saas'' = 2 \<and> groupCount posts ''startups'' = 1
                \<and> meanScore posts = 150
               \<longrightarrow> map growthPercentage (getFallbackTrendAnalysis posts) = [Some 67, Some 15])"
proof -
  obtain top0 where t: "snd top0 = Num (topGroupCount posts)"
    and run: "getFallbackTrendAnalysis posts
               = topTrend posts top0
                 # (if toDouble (meanScore posts) > 100
                    then [engagementTrend (toDouble (meanScore posts))] else [])"
    using fallback_trend_run [OF ne labels scores] by blast
  let ?rest = "if toDouble (meanScore posts) > 100
               then [engagementTrend (toDouble (meanScore posts))] else []"
  have g: "growthPercentage (topTrend posts top0)
             = Some (Math_round (dmul (ddiv (of_nat (topGroupCount posts)) (of_nat (length posts))) 100))"
    by (simp add: topTrend_def t)
  have sc: "map growthPercentage (getFallbackTrendAnalysis posts) = [Some 67, Some 15]"
    if "length posts = 3" "groupCount posts ''saas'' = 2" "groupCount posts ''startups'' = 1"
       "meanScore posts = 150"
  proof -
    have "topGroupCount posts = 2"
      using that(1-3) by (rule scenario_topGroupCount)
    then have "growthPercentage (topTrend posts top0) = Some 67"
      using g that(1) scenario_rounding(1) by simp
    moreover have "growthPercentage (engagementTrend 150) = Some 15"
      using scenario_rounding(3) by (simp add: engagementTrend_def)
    ultimately show ?thesis
      using that(4) by (simp add: run scenario_rounding(2))
  qed
  show ?thesis
    apply (rule exI [of _ "topTrend posts top0"])
    apply (rule exI [of _ ?rest])
    apply (intro conjI)
           apply (rule run)
          apply (rule g)
         apply (simp add: topTrend_def)
        apply (simp add: topTrend_def)
       apply (simp add: topTrend_def)
      apply (simp add: topTrend_def)
     apply (simp add: engagementTrend_def)
    using sc apply blast
    done
qed

lemma scenarioPosts_facts:
  "scenarioPosts \<noteq> []" "ordinaryLabels scenarioPosts" "exactSum 0 (map score scenarioPosts)"
  "length scenarioPosts = 3" "groupCount scenarioPosts ''saas'' = 2"
  "groupCount scenarioPosts ''startups'' = 1" "meanScore scenarioPosts = 150"
  by code_simp+

theorem fallback_trend_insights_witness:
  "scenarioPosts \<noteq> [] \<and> ordinaryLabels scenarioPosts \<and> exactSum 0 (map score scenarioPosts)
   \<and> length scenarioPosts = 3 \<and> groupCount scenarioPosts ''saas'' = 2
   \<and> groupCount scenarioPosts ''startups'' = 1 \<and> meanScore scenarioPosts = 150
   \<and> map growthPercentage (getFallbackTrendAnalysis scenarioPosts) = [Some 67, Some 15]"
proof -
  have "length scenarioPosts = 3 \<and> groupCount scenarioPosts ''saas'' = 2
          \<and> groupCount scenarioPosts ''startups'' = 1 \<and> meanScore scenarioPosts = 150
        \<longrightarrow> map growthPercentage (getFallbackTrendAnalysis scenarioPosts) = [Some 67, Some 15]"
    using fallback_trend_insights [OF scenarioPosts_facts(1-3)]
    by (elim exE conjE) assumption
  then show ?thesis
    using scenarioPosts_facts by simp
qed

lemma fortyPosts_facts:
  "fortyPosts \<noteq> []" "ordinaryLabels fortyPosts" "exactSum 0 (map score fortyPosts)"
  "length fortyPosts = 40" "topGroupCount fortyPosts = 23" "meanScore fortyPosts = 10"
  by code_simp+

lemma forty_rounding:
  "Math_round (dmul (ddiv 23 40) 100) = 57"
  "toDouble 10 = 10"
  by code_simp+

text \<open>
  The claim as it was stated fails for forty records of which twenty-three are in the
  largest group: \<open>round (23 / 40 * 100)\<close> is 58, and the growth percentage of the
  insight is 57, because the double nearest to \<open>23 / 40\<close> times 100 is a double below
  57.5.
\<close>

theorem fallback_rounding_counterexample:
  "fortyPosts \<noteq> [] \<and> length fortyPosts = 40 \<and> topGroupCount fortyPosts = 23
   \<and> round (of_nat (topGroupCount fortyPosts) / of_nat (length fortyPosts) * 100 :: rat) = 58
   \<and> map growthPercentage (getFallbackTrendAnalysis fortyPosts) = [Some 57]"
proof -
  obtain top0 where t: "snd top0 = Num (topGroupCount fortyPosts)"
    and run: "getFallbackTrendAnalysis fortyPosts
               = topTrend fortyPosts top0
                 # (if toDouble (meanScore fortyPosts) > 100
                    then [engagementTrend (toDouble (meanScore fortyPosts))] else [])"
    using fallback_trend_run [OF fortyPosts_facts(1-3)] by blast
  have "growthPercentage (topTrend fortyPosts top0) = Some 57"
    by (simp add: topTrend_def t fortyPosts_facts forty_rounding)
  then have "map growthPercentage (getFallbackTrendAnalysis fortyPosts) = [Some 57]"
    by (simp add: run fortyPosts_facts forty_rounding)
  moreover have "round (of_nat 23 / of_nat 40 * 100 :: rat) = 58"
    unfolding round_def by (subst floor_eq_iff) simp
  ultimately show ?thesis
    by (simp add: fortyPosts_facts)
qed

text \<open>
  A subreddit label that names a function of \<open>Object.prototype\<close> is outside the
  theorem: its count becomes a text and the growth percentage \<open>NaN\<close>. The label
  \<open>__proto__\<close> is not counted at all.
\<close>

lemma inherited_label_insight:
  "subredditCounts [scenarioPost ''constructor'' 10, scenarioPost ''constructor'' 10]
     = [(''constructor'', Str ''function Object() { [native code] }11'')]"
  "map growthPercentage (getFallbackTrendAnalysis [scenarioPost ''constructor'' 10]) = [None]"
  "getFallbackTrendAnalysis [scenarioPost ''__proto__'' 10] = []"
  by code_simp+

section \<open>The fallback problem analyzer\<close>

lemma includes_lowered:
  "str_includes (toLowerCase text) k \<longleftrightarrow> (\<exists>part. sublist part text \<and> toLowerCase part = k)"
proof
  assume "str_includes (toLowerCase text) k"
  then have "sublist k (map lowerChar text)"
    by (simp add: str_includes_def toLowerCase_def)
  then obtain part where "sublist part text" "k = map lowerChar part"
    using sublist_map_rightE by blast
  then show "\<exists>part. sublist part text \<and> toLowerCase part = k"
    by (auto simp: toLowerCase_def)
next
  assume "\<exists>part. sublist part text \<and> toLowerCase part = k"
  then obtain part ps ss where "text = ps @ part @ ss" "toLowerCase part = k"
    by (auto simp: sublist_def)
  then have "toLowerCase text = toLowerCase ps @ k @ toLowerCase ss"
    by (simp add: toLowerCase_def)
  then show "str_includes (toLowerCase text) k"
    by (simp add: str_includes_def)
qed

lemma keywords_lower: "keyword \<in> set problemKeywords \<Longrightarrow> toLowerCase keyword = keyword"
  by (auto simp: problemKeywords_def toLowerCase_def lowerChar_def)

lemma containsIgnoringCase_keyword:
  "keyword \<in> set problemKeywords \<Longrightarrow>
   containsIgnoringCase text keyword = str_includes (toLowerCase text) keyword"
  by (auto simp: containsIgnoringCase_def list_ex_iff includes_lowered keywords_lower)

lemma isProblemPost_matchesKeyword: "isProblemPost post = matchesKeyword post"
  unfolding isProblemPost_def matchesKeyword_def list_ex_iff
  by (auto simp: containsIgnoringCase_keyword split: option.splits)

lemma problemPosts_matching: "filter isProblemPost posts = matchingRecords posts"
  by (simp add: matchingRecords_def isProblemPost_matchesKeyword [abs_def])

lemma fallback_problem_shape:
  "matchingRecords posts \<noteq> [] \<Longrightarrow>
   getFallbackProblemAnalysis posts = keywordProblem (matchingRecords posts) #
     (if (of_nat (length (filter isLowEngagementPost posts)) :: rat) > dmul (of_nat (length posts)) (toDouble (3 / 10))
      then [lowEngagementProblem (filter isLowEngagementPost posts)] else [])"
  by (simp add: getFallbackProblemAnalysis_def problemPosts_matching Let_def)

text \<open>
  Claim C8. When at least one record matches a problem keyword, the fallback problem
  analyzer emits exactly one keyword-based insight, at the head of its output. Its
  frequency is the number of matching records, its severity is High when the frequency
  exceeds 10 and Medium otherwise, its market size is Large and its urgency High. With
  15 matching records out of 20 the frequency is 15 and the severity High.
\<close>

theorem fallback_problem_keyword_insight:
  assumes "matchingRecords posts \<noteq> []"
  shows "\<exists>k rest. getFallbackProblemAnalysis posts = k # rest
           \<and> keywordInsights (getFallbackProblemAnalysis posts) = [k]
           \<and> frequency k = int (length (matchingRecords posts))
           \<and> severity k = (if frequency k > 10 then ''High'' else ''Medium'')
           \<and> marketSize k = ''Large'' \<and> urgency k = ''High''
           \<and> (length posts = 20 \<and> length (matchingRecords posts) = 15
                \<longrightarrow> frequency k = 15 \<and> severity k = ''High'')"
proof -
  let ?k = "keywordProblem (matchingRecords posts)"
  let ?rest = "if (of_nat (length (filter isLowEngagementPost posts)) :: rat)
                    > dmul (of_nat (length posts)) (toDouble (3 / 10))
               then [lowEngagementProblem (filter isLowEngagementPost posts)] else []"
  have run: "getFallbackProblemAnalysis posts = ?k # ?rest"
    using assms by (rule fallback_problem_shape)
  have one: "keywordInsights (getFallbackProblemAnalysis posts) = [?k]"
    by (simp add: run keywordInsights_def keywordProblem_def lowEngagementProblem_def)
  show ?thesis
    apply (rule exI [of _ ?k])
    apply (rule exI [of _ ?rest])
    apply (intro conjI)
          apply (rule run)
         apply (rule one)
        apply (simp add: keywordProblem_def)
       apply (simp add: keywordProblem_def)
      apply (simp add: keywordProblem_def)
     apply (simp add: keywordProblem_def)
    apply (simp add: keywordProblem_def)
    done
qed

lemma helpPost_matches: "isProblemPost helpPost"
  by code_simp

lemma plainPost_plain: "\<not> isProblemPost plainPost"
  by code_simp

lemma twentyPosts_facts:
  "matchingRecords twentyPosts \<noteq> []" "length twentyPosts = 20"
  "length (matchingRecords twentyPosts) = 15"
  using helpPost_matches plainPost_plain
  by (simp_all add: twentyPosts_def matchingRecords_def isProblemPost_matchesKeyword)

theorem fallback_problem_keyword_insight_witness:
  "matchingRecords twentyPosts \<noteq> [] \<and> length twentyPosts = 20
   \<and> length (matchingRecords twentyPosts) = 15
   \<and> (\<exists>k rest. getFallbackProblemAnalysis twentyPosts = k # rest
         \<and> frequency k = 15 \<and> severity k = ''High'')"
proof -
  obtain k rest where "getFallbackProblemAnalysis twentyPosts = k # rest"
    and "length twentyPosts = 20 \<and> length (matchingRecords twentyPosts) = 15
           \<longrightarrow> frequency k = 15 \<and> severity k = ''High''"
    using fallback_problem_keyword_insight [OF twentyPosts_facts(1)] by blast
  then show ?thesis
    using twentyPosts_facts by blast
qed

section \<open>The report synthesizer\<close>

lemma forEachAppend_texts:
  "forEachAppend f items index report = Inr out \<Longrightarrow>
   out = report @ concat (map (\<lambda>(i, item). textOf (f i item)) (zip [index..<index + length items] items))"
proof (induction items arbitrary: index report)
  case Nil
  then show ?case by simp
next
  case (Cons item items)
  from Cons.prems obtain lines where l: "f index item = Inr lines"
    and rest: "forEachAppend f items (index + 1) (report @ lines) = Inr out"
    by (auto split: sum.splits)
  have up: "[index..<index + length (item # items)] = index # [index + 1..<index + 1 + length items]"
    by (simp add: upt_rec)
  show ?case
    using Cons.IH [OF rest] by (simp only: up) (simp add: l textOf_def)
qed

lemma forEachAppend_block:
  "forEachAppend f items 0 report = Inr out \<Longrightarrow> out = report @ concat (itemTexts f items)"
  using forEachAppend_texts [of f items 0 report out] by (simp add: itemTexts_def)

lemma renderReport_blocks:
  assumes "renderReport env days trends problems = Inr report"
  shows "report = reportHeader days @ trendsBlock env trends @ problemsBlock env problems
           @ (if trends = [] \<and> problems = [] then nothingFound else []) @ reportFooter"
proof -
  obtain r1 where r1: "(if length trends > 0
               then forEachAppend (trendLines env) trends 0 (reportHeader days @ trendsHeading)
               else Inr (reportHeader days)) = Inr r1"
    using assms by (auto simp: renderReport_def Let_def split: sum.splits)
  obtain r2 where r2: "(if length problems > 0
               then forEachAppend (problemLines env) problems 0 (r1 @ problemsHeading)
               else Inr r1) = Inr r2"
    using assms r1 by (auto simp: renderReport_def Let_def split: sum.splits)
  have out: "report = (if length trends = 0 \<and> length problems = 0 then r2 @ nothingFound else r2)
               @ reportFooter"
    using assms r1 r2 by (auto simp: renderReport_def Let_def split: sum.splits)
  have e1: "r1 = reportHeader days @ trendsBlock env trends"
  proof (cases "trends = []")
    case True
    then show ?thesis using r1 by (simp add: trendsBlock_def)
  next
    case False
    then show ?thesis
      using r1 forEachAppend_block [of "trendLines env" trends "reportHeader days @ trendsHeading" r1]
      by (simp add: trendsBlock_def)
  qed
  have e2: "r2 = r1 @ problemsBlock env problems"
  proof (cases "problems = []")
    case True
    then show ?thesis using r2 by (simp add: problemsBlock_def)
  next
    case False
    then show ?thesis
      using r2 forEachAppend_block [of "problemLines env" problems "r1 @ problemsHeading" r2]
      by (simp add: problemsBlock_def)
  qed
  show ?thesis
    by (simp add: out e2 e1)
qed

lemma renderReport_empty: "renderReport env days [] [] = Inr (emptyReport days)"
  by (simp add: renderReport_def emptyReport_def)

lemma digit_range: "0 \<le> d \<Longrightarrow> d < 10 \<Longrightarrow> isDigit (digit d)"
proof -
  assume "0 \<le> d" "d < 10"
  then have "d = 0 \<or> d = 1 \<or> d = 2 \<or> d = 3 \<or> d = 4 \<or> d = 5 \<or> d = 6 \<or> d = 7 \<or> d = 8 \<or> d = 9"
    by arith
  then show ?thesis
    by (auto simp: digit_def isDigit_def)
qed

lemma showDigits_digits: "0 \<le> n \<Longrightarrow> list_all isDigit (showDigits n) \<and> showDigits n \<noteq> []"
proof (induction n rule: showDigits.induct)
  case (1 n)
  show ?case
  proof (cases "n < 10")
    case True
    then show ?thesis
      using "1.prems" by (subst (1 2) showDigits.simps) (simp add: digit_range)
  next
    case False
    then have "0 \<le> n div 10" by simp
    with "1.IH" False have "list_all isDigit (showDigits (n div 10))" by simp
    moreover have "isDigit (digit (n mod 10))"
      by (rule digit_range) simp_all
    ultimately show ?thesis
      using False by (subst (1 2) showDigits.simps) simp
  qed
qed

lemma newline_not_digit: "\<not> isDigit (CHR 0x0A)" "CHR 0x0A \<noteq> CHR ''-''"
  by (simp_all add: isDigit_def)

lemma show_int_no_newline: "CHR 0x0A \<notin> set (show_int days)"
proof -
  have "CHR 0x0A \<notin> set (showDigits n)" if "0 \<le> n" for n
    using showDigits_digits [OF that] newline_not_digit(1)
    by (auto simp: list_all_iff)
  then show ?thesis
    by (simp add: show_int_def)
qed

lemma linesOf_nonempty: "linesOf s \<noteq> []"
  by (induction s) (auto split: list.splits)

lemma linesOf_append:
  "CHR 0x0A \<notin> set a \<Longrightarrow> linesOf (a @ b) = (a @ hd (linesOf b)) # tl (linesOf b)"
proof (induction a)
  case Nil
  then show ?case using linesOf_nonempty [of b] by simp
next
  case (Cons c a)
  then show ?case by auto
qed

lemma emptyReport_lines:
  "linesOf (emptyReport days) =
     [[], ''=== TREND ANALYSIS REPORT ('' @ show_int days @ '' days) ==='', [],
      ''No significant trends or problems identified in the current data.'', [],
      ''=== END OF REPORT ==='', []]"
proof -
  let ?tail = "CHR 0x0A # CHR 0x0A #
      ''No significant trends or problems identified in the current data.'' @ CHR 0x0A # CHR 0x0A #
      ''=== END OF REPORT ==='' @ [CHR 0x0A]"
  have t: "linesOf ?tail = [[], [],
      ''No significant trends or problems identified in the current data.'', [],
      ''=== END OF REPORT ==='', []]"
    by simp
  have split: "emptyReport days =
      CHR 0x0A # (''=== TREND ANALYSIS REPORT ('' @ show_int days @ '' days) ==='') @ ?tail"
    by (simp add: emptyReport_def reportHeader_def nothingFound_def reportFooter_def newline_def)
  have nn: "CHR 0x0A \<notin> set (''=== TREND ANALYSIS REPORT ('' @ show_int days @ '' days) ==='')"
    using show_int_no_newline [of days] by simp
  show ?thesis
    unfolding split
    by (simp only: linesOf.simps if_True linesOf_append [OF nn] t) simp
qed

lemma emptyReport_no_items: "\<not> list_ex isNumberedItem (linesOf (emptyReport days))"
  by (simp add: emptyReport_lines isNumberedItem_def isDigit_def)

lemma emptyReport_sentence: "sublist ''No significant trends or problems'' (emptyReport days)"
proof -
  have "emptyReport days = reportHeader days @ ''No significant trends or problems''
          @ ('' identified in the current data.'' @ newline @ reportFooter)"
    by (simp add: emptyReport_def nothingFound_def)
  then show ?thesis
    by (simp only: sublist_appendI)
qed

lemma emptyReport_sentence_lower:
  "containsIgnoringCase (emptyReport days) ''no significant trends or problems''"
proof -
  have "toLowerCase ''No significant trends or problems'' = toLowerCase ''no significant trends or problems''"
    by code_simp
  then show ?thesis
    unfolding containsIgnoringCase_def list_ex_iff
    using emptyReport_sentence [of days] by (intro bexI [of _ "''No significant trends or problems''"]) simp_all
qed

lemma trendsHeading_nonempty: "trendsHeading \<noteq> []" "problemsHeading \<noteq> []"
  by (simp_all add: trendsHeading_def problemsHeading_def)

text \<open>
  Claim C10, as the code has it. For every window label, the report synthesized from
  an empty trend collection and an empty problem collection contains the sentence
  \<^verbatim>\<open>No significant trends or problems identified in the current data.\<close>, which the code
  writes with a capital \<^verbatim>\<open>N\<close> (so the text contains \<^verbatim>\<open>no significant trends or problems\<close>
  only up to the case of that letter), and none of its lines is a numbered list item.
  In general a report that is produced consists of the header, the trends block, the
  problems block, that sentence when both collections are empty, and the footer; the
  trends block is empty exactly when the trend collection is, and the problems block
  exactly when the problem collection is.
\<close>

theorem report_synthesis:
  "renderReport env days [] [] = Inr (emptyReport days)
   \<and> sublist ''No significant trends or problems'' (emptyReport days)
   \<and> containsIgnoringCase (emptyReport days) ''no significant trends or problems''
   \<and> \<not> list_ex isNumberedItem (linesOf (emptyReport days))
   \<and> (renderReport env days trends problems = Inr report
        \<longrightarrow> report = reportHeader days @ trendsBlock env trends @ problemsBlock env problems
              @ (if trends = [] \<and> problems = [] then nothingFound else []) @ reportFooter)
   \<and> (trendsBlock env trends = [] \<longleftrightarrow> trends = [])
   \<and> (problemsBlock env problems = [] \<longleftrightarrow> problems = [])"
proof (intro conjI impI)
  show "renderReport env days [] [] = Inr (emptyReport days)"
    by (rule renderReport_empty)
  show "sublist ''No significant trends or problems'' (emptyReport days)"
    by (rule emptyReport_sentence)
  show "containsIgnoringCase (emptyReport days) ''no significant trends or problems''"
    by (rule emptyReport_sentence_lower)
  show "\<not> list_ex isNumberedItem (linesOf (emptyReport days))"
    by (rule emptyReport_no_items)
  show "report = reportHeader days @ trendsBlock env trends @ problemsBlock env problems
              @ (if trends = [] \<and> problems = [] then nothingFound else []) @ reportFooter"
    if "renderReport env days trends problems = Inr report"
    using that by (rule renderReport_blocks)
  show "trendsBlock env trends = [] \<longleftrightarrow> trends = []"
    by (simp add: trendsBlock_def trendsHeading_nonempty)
  show "problemsBlock env problems = [] \<longleftrightarrow> problems = []"
    by (simp add: problemsBlock_def trendsHeading_nonempty)
qed

lemma scenarioTrends_render: "succeeded (renderReport outageEnv 30 scenarioTrends [])"
  by code_simp

lemma scenarioTrends_nonempty: "scenarioTrends \<noteq> []"
  by code_simp

theorem report_synthesis_witness:
  "\<exists>report. renderReport outageEnv 30 scenarioTrends [] = Inr report
     \<and> report = reportHeader 30 @ trendsBlock outageEnv scenarioTrends @ reportFooter
     \<and> trendsBlock outageEnv scenarioTrends \<noteq> []"
proof -
  obtain report where r: "renderReport outageEnv 30 scenarioTrends [] = Inr report"
    using scenarioTrends_render by (auto simp: succeeded_def split: sum.splits)
  have "renderReport outageEnv 30 scenarioTrends [] = Inr report
        \<longrightarrow> report = reportHeader 30 @ trendsBlock outageEnv scenarioTrends @ problemsBlock outageEnv []
              @ (if scenarioTrends = [] \<and> ([]::json list) = [] then nothingFound else []) @ reportFooter"
    and "trendsBlock outageEnv scenarioTrends = [] \<longleftrightarrow> scenarioTrends = []"
    using report_synthesis [of outageEnv 30 scenarioTrends "[]" report] by blast+
  then show ?thesis
    using r scenarioTrends_nonempty by (simp add: problemsBlock_def)
qed

text \<open>
  The claim as it was stated fails for the window label 30: the report of two empty
  collections does not contain the text \<^verbatim>\<open>no significant trends or problems\<close>.
\<close>

theorem lowercase_sentence_counterexample:
  "renderReport outageEnv 30 [] [] = Inr (emptyReport 30)
   \<and> \<not> sublist ''no significant trends or problems'' (emptyReport 30)"
  by code_simp

section \<open>The retry loop, step by step\<close>

lemma tryAttempt_decoded:
  "responseDecodes env (calls st) \<Longrightarrow>
   tryAttempt env k attempt st =
     (Some (decodedItems env (calls st)), closeCircuitBreaker k (afterRequest env k attempt st))"
  by (auto simp: tryAttempt_def responseDecodes_def decodedItems_def afterRequest_def
      split: prod.splits option.splits json.splits)

lemma tryAttempt_failed:
  "\<not> responseDecodes env (calls st) \<Longrightarrow>
   tryAttempt env k attempt st = (None, afterRequest env k attempt st)"
  by (auto simp: tryAttempt_def responseDecodes_def afterRequest_def
      split: prod.splits option.splits)

lemma attemptLoop_success:
  "attempt \<le> maxRetries \<Longrightarrow> responseDecodes env (calls st) \<Longrightarrow>
   attemptLoop env k posts attempt st =
     (decodedItems env (calls st), closeCircuitBreaker k (afterRequest env k attempt st))"
  by (subst attemptLoop.simps) (simp add: tryAttempt_decoded)

lemma attemptLoop_retry:
  "attempt < maxRetries \<Longrightarrow> \<not> responseDecodes env (calls st) \<Longrightarrow>
   attemptLoop env k posts attempt st =
     attemptLoop env k posts (attempt + 1) (afterFailure env k attempt st)"
  by (subst attemptLoop.simps) (simp add: tryAttempt_failed afterFailure_def Let_def)

lemma attemptLoop_exhausted:
  "\<not> responseDecodes env (calls st) \<Longrightarrow>
   attemptLoop env k posts maxRetries st =
     useFallback k posts
       (openCircuitBreaker k (emit (AttemptFailed k maxRetries) (afterRequest env k maxRetries st)))"
  by (subst attemptLoop.simps) (simp add: tryAttempt_failed Let_def)

lemma afterRequest_fields [simp]:
  "circuitBreakerOpen (afterRequest env k a st) = circuitBreakerOpen st"
  "circuitBreakerResetTime (afterRequest env k a st) = circuitBreakerResetTime st"
  "calls (afterRequest env k a st) = Suc (calls st)"
  "queries (afterRequest env k a st) = queries st"
  "events (afterRequest env k a st) = events st @ [Requested k a]"
  "now (afterRequest env k a st) = now st + fst (generateContent env (calls st))"
  by (simp_all add: afterRequest_def emit_def)

lemma afterFailure_fields [simp]:
  "circuitBreakerOpen (afterFailure env k a st) = circuitBreakerOpen st"
  "circuitBreakerResetTime (afterFailure env k a st) = circuitBreakerResetTime st"
  "calls (afterFailure env k a st) = Suc (calls st)"
  "queries (afterFailure env k a st) = queries st"
  "events (afterFailure env k a st)
     = events st @ [Requested k a, AttemptFailed k a, Waited k (retryDelay * a)]"
  "now (afterFailure env k a st)
     = now st + fst (generateContent env (calls st)) + retryDelay * a"
  by (simp_all add: afterFailure_def sleep_def emit_def)

lemma closeCircuitBreaker_fields [simp]:
  "circuitBreakerOpen (closeCircuitBreaker k st) = False"
  "circuitBreakerResetTime (closeCircuitBreaker k st) = circuitBreakerResetTime st"
  "calls (closeCircuitBreaker k st) = calls st"
  "queries (closeCircuitBreaker k st) = queries st"
  "events (closeCircuitBreaker k st) = events st @ [BreakerClosed k]"
  "now (closeCircuitBreaker k st) = now st"
  by (simp_all add: closeCircuitBreaker_def emit_def)

lemma openCircuitBreaker_fields [simp]:
  "circuitBreakerOpen (openCircuitBreaker k st) = True"
  "circuitBreakerResetTime (openCircuitBreaker k st) = now st + circuitBreakerTimeout"
  "calls (openCircuitBreaker k st) = calls st"
  "queries (openCircuitBreaker k st) = queries st"
  "events (openCircuitBreaker k st) = events st @ [BreakerOpened k (now st + circuitBreakerTimeout)]"
  "now (openCircuitBreaker k st) = now st"
  by (simp_all add: openCircuitBreaker_def emit_def)

lemma emit_fields [simp]:
  "circuitBreakerOpen (emit e st) = circuitBreakerOpen st"
  "circuitBreakerResetTime (emit e st) = circuitBreakerResetTime st"
  "calls (emit e st) = calls st"
  "queries (emit e st) = queries st"
  "events (emit e st) = events st @ [e]"
  "now (emit e st) = now st"
  by (simp_all add: emit_def)

lemma useFallback_simps [simp]:
  "fst (useFallback k posts st) = fallbackAnalysis k posts"
  "snd (useFallback k posts st) = emit (FallbackUsed k) st"
  by (simp_all add: useFallback_def)

text \<open>What a run does when the first \<open>n\<close> attempts fail and the next response decodes.\<close>

lemma fail0:
  assumes "responseDecodes env (calls st)"
  shows "attemptLoop env k posts 1 st =
           (decodedItems env (calls st), closeCircuitBreaker k (afterRequest env k 1 st))"
  using assms by (simp add: attemptLoop_success maxRetries_def)

lemma fail1:
  assumes "\<not> responseDecodes env (calls st)" "responseDecodes env (calls st + 1)"
  shows "attemptLoop env k posts 1 st =
           (decodedItems env (calls st + 1),
            closeCircuitBreaker k (afterRequest env k 2 (afterFailure env k 1 st)))"
proof -
  have "attemptLoop env k posts 1 st = attemptLoop env k posts 2 (afterFailure env k 1 st)"
    using attemptLoop_retry [of 1 env st k posts] assms(1) by (simp add: maxRetries_def)
  also have "\<dots> = (decodedItems env (calls st + 1),
            closeCircuitBreaker k (afterRequest env k 2 (afterFailure env k 1 st)))"
    using attemptLoop_success [of 2 env "afterFailure env k 1 st" k posts] assms(2)
    by (simp add: maxRetries_def)
  finally show ?thesis .
qed

lemma fail2_step:
  assumes "\<not> responseDecodes env (calls st)" "\<not> responseDecodes env (calls st + 1)"
  shows "attemptLoop env k posts 1 st =
           attemptLoop env k posts 3 (afterFailure env k 2 (afterFailure env k 1 st))"
proof -
  have "attemptLoop env k posts 1 st = attemptLoop env k posts 2 (afterFailure env k 1 st)"
    using attemptLoop_retry [of 1 env st k posts] assms(1) by (simp add: maxRetries_def)
  also have "\<dots> = attemptLoop env k posts 3 (afterFailure env k 2 (afterFailure env k 1 st))"
    using attemptLoop_retry [of 2 env "afterFailure env k 1 st" k posts] assms(2)
    by (simp add: maxRetries_def)
  finally show ?thesis .
qed

lemma fail2:
  assumes "\<not> responseDecodes env (calls st)" "\<not> responseDecodes env (calls st + 1)"
    "responseDecodes env (calls st + 2)"
  shows "attemptLoop env k posts 1 st =
           (decodedItems env (calls st + 2),
            closeCircuitBreaker k
              (afterRequest env k 3 (afterFailure env k 2 (afterFailure env k 1 st))))"
  using attemptLoop_success [of 3 env "afterFailure env k 2 (afterFailure env k 1 st)" k posts]
    assms(3)
  by (simp add: fail2_step [OF assms(1,2)] maxRetries_def)

lemma fail3:
  assumes "\<not> responseDecodes env (calls st)" "\<not> responseDecodes env (calls st + 1)"
    "\<not> responseDecodes env (calls st + 2)"
  shows "attemptLoop env k posts 1 st =
           useFallback k posts
             (openCircuitBreaker k
               (emit (AttemptFailed k 3)
                 (afterRequest env k 3 (afterFailure env k 2 (afterFailure env k 1 st)))))"
  using attemptLoop_exhausted [of env "afterFailure env k 2 (afterFailure env k 1 st)" k posts]
    assms(3)
  by (simp add: fail2_step [OF assms(1,2)] maxRetries_def)

section \<open>Retries that end in a success\<close>

lemma analyze_refused:
  "circuitBreakerRefuses st \<Longrightarrow>
   analyze env k posts st =
     (fallbackAnalysis k posts, st\<lparr> events := events st @ [BreakerRefused k, FallbackUsed k] \<rparr>)"
  by (simp add: analyze_def useFallback_def emit_def)

lemma analyze_allowed:
  "\<not> circuitBreakerRefuses st \<Longrightarrow> analyze env k posts st = attemptLoop env k posts 1 st"
  by (simp add: analyze_def)

lemma retryDelay_value [simp]: "retryDelay = 2000"
  by (simp add: retryDelay_def)

lemma upto_small: "[1..0] = []" "[1..1] = [1]" "[1..2] = [1, 2]"
  by (simp_all add: upto.simps)

lemma upt_small: "[0..<1] = [0]" "[0..<2] = [0, 1]" "[0..<3] = [0, 1, 2::nat]"
  by (simp_all add: upt_conv_Cons)

text \<open>
  Claim C4. When the first \<open>n < 3\<close> attempts of a run fail and the next response
  decodes, the run waits \<open>2000 * j\<close> milliseconds after each failed attempt \<open>j\<close> (2 s,
  then 4 s), returns what attempt \<open>n + 1\<close> decoded, closes the breaker exactly once,
  and does nothing after that: no further request, no exhaustion, no fallback. The
  waits are time that passes: when the run returns, the clock has advanced by the
  time the \<open>n + 1\<close> requests took and by \<open>2000 * j\<close> milliseconds for each failed
  attempt \<open>j\<close>, and by nothing else.
\<close>

theorem retry_until_success:
  assumes allowed: "\<not> circuitBreakerRefuses st"
    and n: "n < 3"
    and fails: "\<forall>j<n. \<not> responseDecodes env (calls st + j)"
    and ok: "responseDecodes env (calls st + n)"
  shows "fst (analyze env k posts st) = decodedItems env (calls st + n)
    \<and> newEvents st (snd (analyze env k posts st))
        = concat (map (\<lambda>j. [Requested k j, AttemptFailed k j, Waited k (2000 * j)]) [1..int n])
          @ [Requested k (int n + 1), BreakerClosed k]
    \<and> length (filter (\<lambda>e. e = BreakerClosed k) (newEvents st (snd (analyze env k posts st)))) = 1
    \<and> \<not> circuitBreakerOpen (snd (analyze env k posts st))
    \<and> calls (snd (analyze env k posts st)) = calls st + n + 1
    \<and> now (snd (analyze env k posts st))
        = now st + sum_list (map (\<lambda>j. fst (generateContent env (calls st + j))) [0..<n + 1])
          + sum_list (map (\<lambda>j. 2000 * j) [1..int n])"
proof -
  consider "n = 0" | "n = 1" | "n = 2"
    using n by linarith
  then show ?thesis
  proof cases
    case 1
    then have "attemptLoop env k posts 1 st =
           (decodedItems env (calls st), closeCircuitBreaker k (afterRequest env k 1 st))"
      using ok by (simp add: fail0)
    then show ?thesis
      using 1 by (simp add: analyze_allowed [OF allowed] newEvents_def upto_small upt_small)
  next
    case 2
    then have "attemptLoop env k posts 1 st =
           (decodedItems env (calls st + 1),
            closeCircuitBreaker k (afterRequest env k 2 (afterFailure env k 1 st)))"
      using ok fails by (intro fail1) simp_all
    then show ?thesis
      using 2 by (simp add: analyze_allowed [OF allowed] newEvents_def upto_small upt_small)
  next
    case 3
    have "\<not> responseDecodes env (calls st)" "\<not> responseDecodes env (calls st + 1)"
      using fails [rule_format, of 0] fails [rule_format, of 1] 3 by simp_all
    then have "attemptLoop env k posts 1 st =
           (decodedItems env (calls st + 2),
            closeCircuitBreaker k
              (afterRequest env k 3 (afterFailure env k 2 (afterFailure env k 1 st))))"
      using ok 3 by (intro fail2) simp_all
    then show ?thesis
      using 3 by (simp add: analyze_allowed [OF allowed] newEvents_def upto_small upt_small)
  qed
qed

lemma three_failures:
  assumes "\<forall>j<3. \<not> responseDecodes env (calls st + j)"
  shows "\<not> responseDecodes env (calls st)" "\<not> responseDecodes env (calls st + 1)"
    "\<not> responseDecodes env (calls st + 2)"
proof -
  show "\<not> responseDecodes env (calls st)"
    using assms [rule_format, of 0] by simp
  show "\<not> responseDecodes env (calls st + 1)"
    using assms [rule_format, of 1] by simp
  show "\<not> responseDecodes env (calls st + 2)"
    using assms [rule_format, of 2] by simp
qed

lemma exhausted_run:
  assumes allowed: "\<not> circuitBreakerRefuses st"
    and fails: "\<forall>j<3. \<not> responseDecodes env (calls st + j)"
  shows "analyze env k posts st =
           useFallback k posts
             (openCircuitBreaker k
               (emit (AttemptFailed k 3)
                 (afterRequest env k 3 (afterFailure env k 2 (afterFailure env k 1 st)))))"
  using fail3 [OF three_failures [OF fails]] by (simp add: analyze_allowed [OF allowed])

lemma exhausted_state:
  assumes allowed: "\<not> circuitBreakerRefuses st"
    and fails: "\<forall>j<3. \<not> responseDecodes env (calls st + j)"
  shows "fst (analyze env k posts st) = fallbackAnalysis k posts"
    "circuitBreakerOpen (snd (analyze env k posts st))"
    "circuitBreakerResetTime (snd (analyze env k posts st))
       = now (snd (analyze env k posts st)) + circuitBreakerTimeout"
    "newEvents st (snd (analyze env k posts st))
       = [Requested k 1, AttemptFailed k 1, Waited k 2000,
          Requested k 2, AttemptFailed k 2, Waited k 4000,
          Requested k 3, AttemptFailed k 3,
          BreakerOpened k (now (snd (analyze env k posts st)) + circuitBreakerTimeout),
          FallbackUsed k]"
    "calls (snd (analyze env k posts st)) = calls st + 3"
  by (simp_all add: exhausted_run [OF assms] newEvents_def)

section \<open>Exhaustion and the cooldown\<close>

lemma undecodable_fails: "undecodable env n \<Longrightarrow> \<not> responseDecodes env n"
  by (simp add: undecodable_def responseDecodes_def split: option.splits)

lemma first_event_3:
  "\<exists>new. events (snd (attemptLoop env k posts 3 st)) = events st @ Requested k 3 # new"
proof (cases "responseDecodes env (calls st)")
  case True
  then show ?thesis
    by (simp add: attemptLoop_success maxRetries_def)
next
  case False
  then show ?thesis
    using attemptLoop_exhausted [of env st k posts] by (simp add: maxRetries_def)
qed

lemma first_event_2:
  "\<exists>new. events (snd (attemptLoop env k posts 2 st)) = events st @ Requested k 2 # new"
proof (cases "responseDecodes env (calls st)")
  case True
  then show ?thesis
    by (simp add: attemptLoop_success maxRetries_def)
next
  case False
  then have "attemptLoop env k posts 2 st = attemptLoop env k posts 3 (afterFailure env k 2 st)"
    using attemptLoop_retry [of 2 env st k posts] by (simp add: maxRetries_def)
  then show ?thesis
    using first_event_3 [of env k posts "afterFailure env k 2 st"] by auto
qed

lemma first_event_1:
  "\<exists>new. events (snd (attemptLoop env k posts 1 st)) = events st @ Requested k 1 # new"
proof (cases "responseDecodes env (calls st)")
  case True
  then show ?thesis
    by (simp add: attemptLoop_success maxRetries_def)
next
  case False
  then have "attemptLoop env k posts 1 st = attemptLoop env k posts 2 (afterFailure env k 1 st)"
    using attemptLoop_retry [of 1 env st k posts] by (simp add: maxRetries_def)
  then show ?thesis
    using first_event_2 [of env k posts "afterFailure env k 1 st"] by auto
qed

lemma refused_iff:
  "sameBreaker later st' \<Longrightarrow>
   circuitBreakerRefuses later
     \<longleftrightarrow> circuitBreakerOpen st' \<and> now later < circuitBreakerResetTime st'"
  by (auto simp: sameBreaker_def circuitBreakerRefuses_def)


text \<open>
  Claim C2. When a run exhausts its attempts the breaker is open and its reset time is
  the time of the exhaustion plus five minutes. While the breaker is left as it is,
  an invocation before the reset time is refused: the fallback analyzer is used and
  no request is made. An invocation at or after the reset time is allowed without any
  reset: the first thing it does is the request of attempt 1, and the breaker is
  assigned only after that request is answered, being closed at once if the response
  decodes.
\<close>

theorem breaker_cooldown:
  assumes allowed: "\<not> circuitBreakerRefuses st"
    and fails: "\<forall>j<3. \<not> responseDecodes env (calls st + j)"
    and st': "st' = snd (analyze env k posts st)"
    and same: "sameBreaker later st'"
  shows "circuitBreakerOpen st' \<and> circuitBreakerResetTime st' = now st' + 5 * 60 * 1000
    \<and> (now later < circuitBreakerResetTime st'
        \<longrightarrow> analyze env2 k2 posts2 later
              = (fallbackAnalysis k2 posts2,
                 later\<lparr> events := events later @ [BreakerRefused k2, FallbackUsed k2] \<rparr>))
    \<and> (circuitBreakerResetTime st' \<le> now later
        \<longrightarrow> analyze env2 k2 posts2 later = attemptLoop env2 k2 posts2 1 later
            \<and> (\<exists>new. newEvents later (snd (analyze env2 k2 posts2 later)) = Requested k2 1 # new)
            \<and> (responseDecodes env2 (calls later)
                \<longrightarrow> newEvents later (snd (analyze env2 k2 posts2 later))
                      = [Requested k2 1, BreakerClosed k2]
                    \<and> \<not> circuitBreakerOpen (snd (analyze env2 k2 posts2 later))))"
proof -
  have open': "circuitBreakerOpen st'"
    and reset: "circuitBreakerResetTime st' = now st' + circuitBreakerTimeout"
    using exhausted_state [OF allowed fails, of k posts] st' by simp_all
  have before: "analyze env2 k2 posts2 later
              = (fallbackAnalysis k2 posts2,
                 later\<lparr> events := events later @ [BreakerRefused k2, FallbackUsed k2] \<rparr>)"
    if "now later < circuitBreakerResetTime st'"
    using that open' refused_iff [OF same] by (simp add: analyze_refused)
  have after: "analyze env2 k2 posts2 later = attemptLoop env2 k2 posts2 1 later"
    if "circuitBreakerResetTime st' \<le> now later"
    using that refused_iff [OF same] by (simp add: analyze_allowed)
  have first: "\<exists>new. newEvents later (snd (attemptLoop env2 k2 posts2 1 later)) = Requested k2 1 # new"
    using first_event_1 [of env2 k2 posts2 later] by (auto simp: newEvents_def)
  have closes: "newEvents later (snd (attemptLoop env2 k2 posts2 1 later))
                      = [Requested k2 1, BreakerClosed k2]
                    \<and> \<not> circuitBreakerOpen (snd (attemptLoop env2 k2 posts2 1 later))"
    if "responseDecodes env2 (calls later)"
    using that by (simp add: fail0 newEvents_def)
  show ?thesis
    using open' reset before after first closes
    by (simp add: circuitBreakerTimeout_def)
qed

section \<open>One breaker for both paths, and what decoding does\<close>

lemma exhaustion_refuses:
  assumes allowed: "\<not> circuitBreakerRefuses st"
    and fails: "\<forall>j<3. \<not> responseDecodes env (calls st + j)"
    and same: "sameBreaker later (snd (analyze env k posts st))"
    and early: "now later < now (snd (analyze env k posts st)) + circuitBreakerTimeout"
  shows "analyze env2 k2 posts2 later
           = (fallbackAnalysis k2 posts2,
              later\<lparr> events := events later @ [BreakerRefused k2, FallbackUsed k2] \<rparr>)"
proof -
  have "circuitBreakerRefuses later"
    using exhausted_state(2,3) [OF allowed fails, of k posts] refused_iff [OF same] early
    by simp
  then show ?thesis
    by (rule analyze_refused)
qed

lemma success_state:
  assumes allowed: "\<not> circuitBreakerRefuses st"
    and n: "n < 3"
    and fails: "\<forall>j<n. \<not> responseDecodes env (calls st + j)"
    and ok: "responseDecodes env (calls st + n)"
  shows "\<not> circuitBreakerOpen (snd (analyze env k posts st))"
proof -
  consider "n = 0" | "n = 1" | "n = 2"
    using n by linarith
  then show ?thesis
  proof cases
    case 1
    then show ?thesis
      using ok by (simp add: analyze_allowed [OF allowed] fail0)
  next
    case 2
    then have "\<not> responseDecodes env (calls st)" "responseDecodes env (calls st + 1)"
      using fails [rule_format, of 0] ok by simp_all
    then show ?thesis
      by (simp add: analyze_allowed [OF allowed] fail1)
  next
    case 3
    then have "\<not> responseDecodes env (calls st)" "\<not> responseDecodes env (calls st + 1)"
      "responseDecodes env (calls st + 2)"
      using fails [rule_format, of 0] fails [rule_format, of 1] ok by simp_all
    then show ?thesis
      by (simp add: analyze_allowed [OF allowed] fail2)
  qed
qed

lemma closed_allows:
  assumes "\<not> circuitBreakerOpen st'" "sameBreaker later st'"
  shows "\<not> circuitBreakerRefuses later"
    "\<exists>new. newEvents later (snd (analyze env2 k2 posts2 later)) = Requested k2 1 # new"
proof -
  show a: "\<not> circuitBreakerRefuses later"
    using assms by (simp add: refused_iff)
  show "\<exists>new. newEvents later (snd (analyze env2 k2 posts2 later)) = Requested k2 1 # new"
    using first_event_1 [of env2 k2 posts2 later]
    by (auto simp: analyze_allowed [OF a] newEvents_def)
qed

lemma fallbackAnalysis_kinds:
  "fallbackAnalysis Trends posts = map trendJson (getFallbackTrendAnalysis posts)"
  "fallbackAnalysis Problems posts = map problemJson (getFallbackProblemAnalysis posts)"
  by (simp_all add: fallbackAnalysis_def)

text \<open>
  Claim C3. The trend path and the problem path read and assign the same breaker. In
  every state, when either path exhausts its attempts, the next invocation of the other
  path within the five minutes makes no request and returns the insights of its own
  fallback analyzer; and when a run of either path succeeds, the breaker is closed for
  both: the next invocation of each path starts with a request.
\<close>

theorem shared_circuit_breaker:
  assumes allowed: "\<not> circuitBreakerRefuses st"
  shows "((\<forall>j<3. \<not> responseDecodes env (calls st + j))
          \<and> sameBreaker later (snd (analyzeWithGemini env posts st))
          \<and> now later < now (snd (analyzeWithGemini env posts st)) + circuitBreakerTimeout
         \<longrightarrow> analyzeProblemsWithGemini env2 posts2 later
               = (map problemJson (getFallbackProblemAnalysis posts2),
                  later\<lparr> events := events later @ [BreakerRefused Problems, FallbackUsed Problems] \<rparr>))
    \<and> ((\<forall>j<3. \<not> responseDecodes env (calls st + j))
          \<and> sameBreaker later (snd (analyzeProblemsWithGemini env posts st))
          \<and> now later < now (snd (analyzeProblemsWithGemini env posts st)) + circuitBreakerTimeout
         \<longrightarrow> analyzeWithGemini env2 posts2 later
               = (map trendJson (getFallbackTrendAnalysis posts2),
                  later\<lparr> events := events later @ [BreakerRefused Trends, FallbackUsed Trends] \<rparr>))
    \<and> (n < 3 \<and> (\<forall>j<n. \<not> responseDecodes env (calls st + j)) \<and> responseDecodes env (calls st + n)
          \<and> (sameBreaker later (snd (analyzeWithGemini env posts st))
              \<or> sameBreaker later (snd (analyzeProblemsWithGemini env posts st)))
         \<longrightarrow> \<not> circuitBreakerRefuses later
             \<and> (\<exists>new. newEvents later (snd (analyzeWithGemini env2 posts2 later))
                        = Requested Trends 1 # new)
             \<and> (\<exists>new. newEvents later (snd (analyzeProblemsWithGemini env2 posts2 later))
                        = Requested Problems 1 # new))"
proof (intro conjI impI)
  assume h: "(\<forall>j<3. \<not> responseDecodes env (calls st + j))
          \<and> sameBreaker later (snd (analyzeWithGemini env posts st))
          \<and> now later < now (snd (analyzeWithGemini env posts st)) + circuitBreakerTimeout"
  then show "analyzeProblemsWithGemini env2 posts2 later
               = (map problemJson (getFallbackProblemAnalysis posts2),
                  later\<lparr> events := events later @ [BreakerRefused Problems, FallbackUsed Problems] \<rparr>)"
    using exhaustion_refuses [OF allowed, of env later Trends posts env2 Problems posts2]
    by (simp add: analyzeWithGemini_def analyzeProblemsWithGemini_def fallbackAnalysis_kinds)
next
  assume h: "(\<forall>j<3. \<not> responseDecodes env (calls st + j))
          \<and> sameBreaker later (snd (analyzeProblemsWithGemini env posts st))
          \<and> now later < now (snd (analyzeProblemsWithGemini env posts st)) + circuitBreakerTimeout"
  then show "analyzeWithGemini env2 posts2 later
               = (map trendJson (getFallbackTrendAnalysis posts2),
                  later\<lparr> events := events later @ [BreakerRefused Trends, FallbackUsed Trends] \<rparr>)"
    using exhaustion_refuses [OF allowed, of env later Problems posts env2 Trends posts2]
    by (simp add: analyzeWithGemini_def analyzeProblemsWithGemini_def fallbackAnalysis_kinds)
next
  assume h: "n < 3 \<and> (\<forall>j<n. \<not> responseDecodes env (calls st + j)) \<and> responseDecodes env (calls st + n)
          \<and> (sameBreaker later (snd (analyzeWithGemini env posts st))
              \<or> sameBreaker later (snd (analyzeProblemsWithGemini env posts st)))"
  then obtain k where same: "sameBreaker later (snd (analyze env k posts st))"
    by (auto simp: analyzeWithGemini_def analyzeProblemsWithGemini_def)
  have closed: "\<not> circuitBreakerOpen (snd (analyze env k posts st))"
    using h success_state [OF allowed, of n env k posts] by blast
  show "\<not> circuitBreakerRefuses later"
    using closed_allows(1) [OF closed same] .
  show "\<exists>new. newEvents later (snd (analyzeWithGemini env2 posts2 later)) = Requested Trends 1 # new"
    using closed_allows(2) [OF closed same, of env2 Trends posts2]
    by (simp add: analyzeWithGemini_def)
  show "\<exists>new. newEvents later (snd (analyzeProblemsWithGemini env2 posts2 later))
                 = Requested Problems 1 # new"
    using closed_allows(2) [OF closed same, of env2 Problems posts2]
    by (simp add: analyzeProblemsWithGemini_def)
qed

lemma tryAttempt_text:
  assumes "snd (generateContent env (calls st)) = Some text"
  shows "tryAttempt env k a st =
     (case JSON_parse env (stripFence text) of
        None \<Rightarrow> (None, afterRequest env k a st)
      | Some decoded \<Rightarrow>
          (Some (case decoded of JArray items \<Rightarrow> items | _ \<Rightarrow> []),
           closeCircuitBreaker k (afterRequest env k a st)))"
  using assms by (auto simp: tryAttempt_def afterRequest_def split: prod.splits option.splits)

lemma analyze_result:
  "fst (analyze env k posts st) = fallbackAnalysis k posts
   \<or> (\<exists>n. responseDecodes env n \<and> fst (analyze env k posts st) = decodedItems env n)"
proof (cases "circuitBreakerRefuses st")
  case True
  then show ?thesis by (simp add: analyze_refused)
next
  case allowed: False
  show ?thesis
  proof (cases "responseDecodes env (calls st)")
    case True
    then show ?thesis
      using fail0 [of env st k posts] by (auto simp: analyze_allowed [OF allowed])
  next
    case f0: False
    show ?thesis
    proof (cases "responseDecodes env (calls st + 1)")
      case True
      then show ?thesis
        using fail1 [OF f0, of k posts] by (auto simp: analyze_allowed [OF allowed])
    next
      case f1: False
      show ?thesis
      proof (cases "responseDecodes env (calls st + 2)")
        case True
        then show ?thesis
          using fail2 [OF f0 f1, of k posts] by (auto simp: analyze_allowed [OF allowed])
      next
        case f2: False
        then show ?thesis
          using fail3 [OF f0 f1 f2, of k posts] by (simp add: analyze_allowed [OF allowed])
      qed
    qed
  qed
qed

text \<open>
  Claim C1, as the code has it. Decoding a response never raises out of an analysis:
  the analysis returns either what a decodable response held or the insights of the
  fallback analyzer. A response that decodes to a value that is not a sequence yields
  the empty sequence and closes the breaker. A response that cannot be decoded is not
  taken for zero insights: its attempt has failed, it is retried after the backoff
  wait while attempts remain, and at the last attempt the breaker is opened and the
  insights of the fallback analyzer are returned.
\<close>

theorem response_decoding:
  assumes resp: "snd (generateContent env (calls st)) = Some text"
  shows "(fst (analyze env k posts st) = fallbackAnalysis k posts
          \<or> (\<exists>n. responseDecodes env n \<and> fst (analyze env k posts st) = decodedItems env n))
    \<and> (JSON_parse env (stripFence text) = Some v \<and> (\<forall>items. v \<noteq> JArray items)
        \<longrightarrow> tryAttempt env k a st = (Some [], closeCircuitBreaker k (afterRequest env k a st)))
    \<and> (JSON_parse env (stripFence text) = Some (JArray items)
        \<longrightarrow> tryAttempt env k a st = (Some items, closeCircuitBreaker k (afterRequest env k a st)))
    \<and> (JSON_parse env (stripFence text) = None
        \<longrightarrow> tryAttempt env k a st = (None, afterRequest env k a st)
            \<and> (a < maxRetries
                \<longrightarrow> attemptLoop env k posts a st
                      = attemptLoop env k posts (a + 1) (afterFailure env k a st)
                    \<and> newEvents st (afterFailure env k a st)
                      = [Requested k a, AttemptFailed k a, Waited k (2000 * a)])
            \<and> (a = maxRetries
                \<longrightarrow> fst (attemptLoop env k posts a st) = fallbackAnalysis k posts
                    \<and> circuitBreakerOpen (snd (attemptLoop env k posts a st))))"
proof (intro conjI impI)
  show "fst (analyze env k posts st) = fallbackAnalysis k posts
          \<or> (\<exists>n. responseDecodes env n \<and> fst (analyze env k posts st) = decodedItems env n)"
    by (rule analyze_result)
next
  assume "JSON_parse env (stripFence text) = Some v \<and> (\<forall>items. v \<noteq> JArray items)"
  then show "tryAttempt env k a st = (Some [], closeCircuitBreaker k (afterRequest env k a st))"
    by (cases v) (simp_all add: tryAttempt_text [OF resp])
next
  assume "JSON_parse env (stripFence text) = Some (JArray items)"
  then show "tryAttempt env k a st = (Some items, closeCircuitBreaker k (afterRequest env k a st))"
    by (simp add: tryAttempt_text [OF resp])
next
  assume none: "JSON_parse env (stripFence text) = None"
  then have nd: "\<not> responseDecodes env (calls st)"
    by (simp add: responseDecodes_def resp)
  show "tryAttempt env k a st = (None, afterRequest env k a st)"
    using none by (simp add: tryAttempt_text [OF resp])
  show "attemptLoop env k posts a st = attemptLoop env k posts (a + 1) (afterFailure env k a st)"
    if "a < maxRetries"
    using that nd by (rule attemptLoop_retry)
  show "newEvents st (afterFailure env k a st) = [Requested k a, AttemptFailed k a, Waited k (2000 * a)]"
    by (simp add: newEvents_def)
  show "fst (attemptLoop env k posts a st) = fallbackAnalysis k posts" if "a = maxRetries"
    using that attemptLoop_exhausted [OF nd, of k posts] by simp
  show "circuitBreakerOpen (snd (attemptLoop env k posts a st))" if "a = maxRetries"
    using that attemptLoop_exhausted [OF nd, of k posts] by simp
qed

section \<open>Sample runs of the retry loop\<close>

lemma startState_allowed: "\<not> circuitBreakerRefuses startState"
  by (simp add: circuitBreakerRefuses_def startState_def)

lemma startState_calls: "calls startState = 0"
  by (simp add: startState_def)

lemma flakyEnv_responses:
  "\<not> responseDecodes flakyEnv 0" "\<not> responseDecodes flakyEnv 1" "responseDecodes flakyEnv 2"
  "decodedItems flakyEnv 2 = [JObject []]"
  by code_simp+

lemma sampleParse_texts:
  "sampleParse (stripFence ''oops'') = None"
  "sampleParse (stripFence ''{}'') = Some (JObject [])"
  "sampleParse (stripFence ''[null]'') = Some (JArray [JNull])"
  by code_simp+

lemma garbledEnv_responses: "undecodable garbledEnv n"
  by (simp add: undecodable_def garbledEnv_def sampleEnv_def sampleParse_texts)

lemma garbledEnv_fails: "\<not> responseDecodes garbledEnv n"
  using garbledEnv_responses by (rule undecodable_fails)

theorem retry_until_success_witness:
  "\<not> circuitBreakerRefuses startState \<and> (2::nat) < 3
   \<and> \<not> responseDecodes flakyEnv 0 \<and> \<not> responseDecodes flakyEnv 1 \<and> responseDecodes flakyEnv 2
   \<and> fst (analyze flakyEnv Trends scenarioPosts startState) = [JObject []]
   \<and> newEvents startState (snd (analyze flakyEnv Trends scenarioPosts startState))
       = [Requested Trends 1, AttemptFailed Trends 1, Waited Trends 2000,
          Requested Trends 2, AttemptFailed Trends 2, Waited Trends 4000,
          Requested Trends 3, BreakerClosed Trends]
   \<and> \<not> circuitBreakerOpen (snd (analyze flakyEnv Trends scenarioPosts startState))
   \<and> calls (snd (analyze flakyEnv Trends scenarioPosts startState)) = 3
   \<and> now startState = 1700000100000
   \<and> now (snd (analyze flakyEnv Trends scenarioPosts startState)) = 1700000108400"
proof -
  have fails: "\<forall>j<2. \<not> responseDecodes flakyEnv (calls startState + j)"
    using flakyEnv_responses(1,2) by (auto simp: startState_calls less_2_cases_iff)
  have ok: "responseDecodes flakyEnv (calls startState + 2)"
    by code_simp
  have two: "(2::nat) < 3" by simp
  have items: "decodedItems flakyEnv (Suc (Suc 0)) = [JObject []]"
    by code_simp
  have clock: "now startState = 1700000100000" "fst (generateContent flakyEnv j) = 800" for j
    by (simp_all add: startState_def flakyEnv_def sampleEnv_def)
  show ?thesis
    using retry_until_success [OF startState_allowed two fails ok, of Trends scenarioPosts]
      flakyEnv_responses startState_allowed items
    by (simp add: startState_calls upto_small upt_small clock)
qed


lemma exhaustedState_facts:
  "circuitBreakerOpen exhaustedState" "circuitBreakerResetTime exhaustedState = 1700000408400"
  "now exhaustedState = 1700000108400"
proof -
  have f: "\<forall>j<3. \<not> responseDecodes garbledEnv (calls startState + j)"
    by (simp add: garbledEnv_fails)
  have n: "now exhaustedState = 1700000108400"
    unfolding exhaustedState_def exhausted_run [OF startState_allowed f]
    by (simp add: garbledEnv_def sampleEnv_def startState_def)
  show "circuitBreakerOpen exhaustedState"
    using exhausted_state(2) [OF startState_allowed f] by (simp add: exhaustedState_def)
  show "circuitBreakerResetTime exhaustedState = 1700000408400"
    using exhausted_state(3) [OF startState_allowed f, of Trends scenarioPosts] n
    by (simp add: exhaustedState_def circuitBreakerTimeout_def)
  show "now exhaustedState = 1700000108400" by (rule n)
qed

theorem breaker_cooldown_witness:
  "\<not> circuitBreakerRefuses startState
   \<and> \<not> responseDecodes garbledEnv 0 \<and> \<not> responseDecodes garbledEnv 1 \<and> \<not> responseDecodes garbledEnv 2
   \<and> circuitBreakerOpen exhaustedState
   \<and> circuitBreakerResetTime exhaustedState = now exhaustedState + 5 * 60 * 1000
   \<and> now minuteLater < circuitBreakerResetTime exhaustedState
   \<and> analyze flakyEnv Problems twentyPosts minuteLater
       = (fallbackAnalysis Problems twentyPosts,
          minuteLater\<lparr> events := events minuteLater @ [BreakerRefused Problems, FallbackUsed Problems] \<rparr>)
   \<and> circuitBreakerResetTime exhaustedState \<le> now cooledDown
   \<and> analyze objectEnv Problems twentyPosts cooledDown
        = attemptLoop objectEnv Problems twentyPosts 1 cooledDown
   \<and> responseDecodes objectEnv (calls cooledDown)
   \<and> newEvents cooledDown (snd (analyze objectEnv Problems twentyPosts cooledDown))
        = [Requested Problems 1, BreakerClosed Problems]
   \<and> \<not> circuitBreakerOpen (snd (analyze objectEnv Problems twentyPosts cooledDown))"
proof -
  have f: "\<forall>j<3. \<not> responseDecodes garbledEnv (calls startState + j)"
    by (simp add: garbledEnv_fails)
  have e: "exhaustedState = snd (analyze garbledEnv Trends scenarioPosts startState)"
    by (rule exhaustedState_def)
  have s1: "sameBreaker minuteLater exhaustedState" and s2: "sameBreaker cooledDown exhaustedState"
    by (simp_all add: sameBreaker_def minuteLater_def cooledDown_def)
  have t1: "now minuteLater < circuitBreakerResetTime exhaustedState"
    and t2: "circuitBreakerResetTime exhaustedState \<le> now cooledDown"
    by (simp_all add: minuteLater_def cooledDown_def exhaustedState_facts)
  have d: "responseDecodes objectEnv (calls cooledDown)"
    by (simp add: responseDecodes_def objectEnv_def sampleEnv_def sampleParse_texts)
  note early = breaker_cooldown [OF startState_allowed f e s1, of flakyEnv Problems twentyPosts]
  note late = breaker_cooldown [OF startState_allowed f e s2, of objectEnv Problems twentyPosts]
  have c1: "circuitBreakerOpen exhaustedState"
    and c2: "circuitBreakerResetTime exhaustedState = now exhaustedState + 5 * 60 * 1000"
    using early by blast+
  have c3: "analyze flakyEnv Problems twentyPosts minuteLater
       = (fallbackAnalysis Problems twentyPosts,
          minuteLater\<lparr> events := events minuteLater @ [BreakerRefused Problems, FallbackUsed Problems] \<rparr>)"
    using early t1 by blast
  have c4: "analyze objectEnv Problems twentyPosts cooledDown
        = attemptLoop objectEnv Problems twentyPosts 1 cooledDown"
    and c5: "newEvents cooledDown (snd (analyze objectEnv Problems twentyPosts cooledDown))
        = [Requested Problems 1, BreakerClosed Problems]"
    and c6: "\<not> circuitBreakerOpen (snd (analyze objectEnv Problems twentyPosts cooledDown))"
    using late t2 d by blast+
  show ?thesis
    using startState_allowed garbledEnv_fails c1 c2 t1 c3 t2 c4 d c5 c6
    by (intro conjI) (assumption | rule garbledEnv_fails)+
qed

section \<open>Rendering and fetching\<close>

lemma succeeded_simps [simp]: "succeeded (Inr x)" "\<not> succeeded (Inl e)"
  by (simp_all add: succeeded_def)


lemma collect_succeeded: "succeeded (collect rs) \<longleftrightarrow> list_all succeeded rs"
  by (induction rs) (auto simp: succeeded_def split: sum.splits)






lemma template_succeeded: "succeeded (template pieces) \<longleftrightarrow> list_all succeeded pieces"
  using collect_succeeded [of pieces] by (auto simp: template_def succeeded_def split: sum.splits)













lemma no_solutions_unrenderable: "\<not> rendersProblem env (JObject [])"
  by (simp add: rendersProblem_def problemLines_def template_succeeded property_def
      joinSolutions_def)

section \<open>The event loop\<close>

lemma decodeResponse_generateContent:
  "decodeResponse env (snd (generateContent env n))
     = (if responseDecodes env n then Some (decodedItems env n) else None)"
  by (auto simp: decodeResponse_def responseDecodes_def decodedItems_def
      split: option.splits json.splits)








section \<open>One analysis on its own\<close>

lemma alone_settled: "eventLoop env (alone k r (Settled x) st) = alone k r (Settled x) st"
  by (subst eventLoop.simps) (simp add: alone_def turn_def nextTask_def split: kind.splits)

lemma alone_turn:
  assumes "dueTime t = Some due"
  shows "eventLoop env (alone k r t st)
           = eventLoop env (alone k r (fst (resume env k t (st\<lparr> now := due \<rparr>)))
                                      (snd (resume env k t (st\<lparr> now := due \<rparr>))))"
  using assms
  by (subst eventLoop.simps)
    (simp add: alone_def turn_def nextTask_def case_prod_beta split: kind.splits)

lemma request_state:
  "attempt \<le> maxRetries \<Longrightarrow>
   request env k posts attempt st
     = (AwaitingResponse (now st + fst (generateContent env (calls st))) posts attempt
          (snd (generateContent env (calls st))),
        (emit (Requested k attempt) st)\<lparr> calls := Suc (calls st) \<rparr>)"
  by (simp add: request_def case_prod_beta)

lemma resumed_request:
  "((emit (Requested k attempt) st)\<lparr> calls := Suc (calls st) \<rparr>)
     \<lparr> now := now st + fst (generateContent env (calls st)) \<rparr>
   = afterRequest env k attempt st"
  by (simp add: afterRequest_def emit_def)

lemma attempts_alone:
  "eventLoop env (alone k r (fst (request env k posts attempt st))
                            (snd (request env k posts attempt st)))
     = alone k r (Settled (Inr (fst (attemptLoop env k posts attempt st))))
         (snd (attemptLoop env k posts attempt st))"
proof (induction env k posts attempt st rule: attemptLoop.induct)
  case (1 env k posts attempt st)
  show ?case
  proof (cases "attempt \<le> maxRetries")
    case False
    then have "request env k posts attempt st = (Settled (Inr []), st)"
      "attemptLoop env k posts attempt st = ([], st)"
      by (simp_all add: request_def attemptLoop.simps)
    then show ?thesis
      by (simp add: alone_settled)
  next
    case le: True
    let ?s1 = "afterRequest env k attempt st"
    have step: "eventLoop env (alone k r (fst (request env k posts attempt st))
                                         (snd (request env k posts attempt st)))
                  = eventLoop env
                      (alone k r
                        (fst (resume env k
                               (AwaitingResponse (now st + fst (generateContent env (calls st)))
                                  posts attempt (snd (generateContent env (calls st)))) ?s1))
                        (snd (resume env k
                               (AwaitingResponse (now st + fst (generateContent env (calls st)))
                                  posts attempt (snd (generateContent env (calls st)))) ?s1)))"
      by (simp add: request_state [OF le] alone_turn [where due = "now st + fst (generateContent env (calls st))"]
          resumed_request)
    show ?thesis
    proof (cases "responseDecodes env (calls st)")
      case True
      then show ?thesis
        by (simp add: step resume_def decodeResponse_generateContent alone_settled
            attemptLoop_success [OF le True])
    next
      case failed: False
      show ?thesis
      proof (cases "attempt = maxRetries")
        case True
        have "attemptLoop env k posts attempt st
                = useFallback k posts (openCircuitBreaker k (emit (AttemptFailed k attempt) ?s1))"
          using attemptLoop_exhausted [OF failed, of k posts] True by simp
        then show ?thesis
          unfolding step
          by (simp add: resume_def decodeResponse_generateContent failed alone_settled
              useFallback_def Let_def True)
      next
        case False
        then have lt: "attempt < maxRetries"
          using le by simp
        let ?s2 = "emit (AttemptFailed k attempt) ?s1"
        have t: "tryAttempt env k attempt st = (None, ?s1)"
          using failed by (rule tryAttempt_failed)
        have ih: "eventLoop env
                    (alone k r (fst (request env k posts (attempt + 1) (sleep k (retryDelay * attempt) ?s2)))
                               (snd (request env k posts (attempt + 1) (sleep k (retryDelay * attempt) ?s2))))
                  = alone k r
                      (Settled (Inr (fst (attemptLoop env k posts (attempt + 1)
                                            (sleep k (retryDelay * attempt) ?s2)))))
                      (snd (attemptLoop env k posts (attempt + 1) (sleep k (retryDelay * attempt) ?s2)))"
          using "1.IH" [OF le t [symmetric] refl refl False] by simp
        have timer: "eventLoop env
                       (alone k r (AwaitingTimer (now ?s2 + retryDelay * attempt) posts attempt)
                                  (emit (Waited k (retryDelay * attempt)) ?s2))
                     = eventLoop env
                         (alone k r (fst (request env k posts (attempt + 1) (sleep k (retryDelay * attempt) ?s2)))
                                    (snd (request env k posts (attempt + 1) (sleep k (retryDelay * attempt) ?s2))))"
          by (subst alone_turn [where due = "now ?s2 + retryDelay * attempt"])
            (simp_all add: resume_def sleep_def del: retryDelay_value)
        have res: "resume env k
                     (AwaitingResponse (now st + fst (generateContent env (calls st)))
                        posts attempt (snd (generateContent env (calls st)))) ?s1
                   = (AwaitingTimer (now ?s2 + retryDelay * attempt) posts attempt,
                      emit (Waited k (retryDelay * attempt)) ?s2)"
          using False
          by (simp add: resume_def decodeResponse_generateContent failed Let_def
              del: retryDelay_value)
        have eq: "attemptLoop env k posts attempt st
                = attemptLoop env k posts (attempt + 1) (sleep k (retryDelay * attempt) ?s2)"
          using attemptLoop_retry [OF lt failed, of k posts] by (simp add: afterFailure_def)
        show ?thesis
          by (simp only: step res fst_conv snd_conv timer ih eq)
      qed
    qed
  qed
qed


lemma getRecentPosts_cases:
  "snd (findAll env (queries st)) = None \<Longrightarrow>
     getRecentPosts env days st
       = (Inl ProviderFailure,
          st\<lparr> queries := Suc (queries st), now := now st + fst (findAll env (queries st)) \<rparr>)"
  "snd (findAll env (queries st)) = Some posts \<Longrightarrow>
     getRecentPosts env days st
       = (Inr (filter (\<lambda>post. created_utc post \<ge> cutoffTimestamp env (now st) days) posts),
          st\<lparr> queries := Suc (queries st), now := now st + fst (findAll env (queries st)) \<rparr>)"
  by (auto simp: getRecentPosts_def Let_def split: prod.splits)

lemma analyzeTrends_unfold:
  "analyzeTrends env days st =
     (case fst (getRecentPosts env days st) of
        Inl e \<Rightarrow> (Inl e, snd (getRecentPosts env days st))
      | Inr posts \<Rightarrow>
          if posts = [] then (Inr [], snd (getRecentPosts env days st))
          else (Inr (fst (analyze env Trends posts (snd (getRecentPosts env days st)))),
                snd (analyze env Trends posts (snd (getRecentPosts env days st)))))"
  by (simp add: analyzeTrends_def analyzeWithGemini_def case_prod_beta split: sum.splits)

lemma analyzeProblems_unfold:
  "analyzeProblems env days st =
     (case fst (getRecentPosts env days st) of
        Inl e \<Rightarrow> (Inl e, snd (getRecentPosts env days st))
      | Inr posts \<Rightarrow>
          if posts = [] then (Inr [], snd (getRecentPosts env days st))
          else (Inr (fst (analyze env Problems posts (snd (getRecentPosts env days st)))),
                snd (analyze env Problems posts (snd (getRecentPosts env days st)))))"
  by (simp add: analyzeProblems_def analyzeProblemsWithGemini_def case_prod_beta split: sum.splits)

lemma analysis_unfold:
  "analysis k env days st =
     (case fst (getRecentPosts env days st) of
        Inl e \<Rightarrow> (Inl e, snd (getRecentPosts env days st))
      | Inr posts \<Rightarrow>
          if posts = [] then (Inr [], snd (getRecentPosts env days st))
          else (Inr (fst (analyze env k posts (snd (getRecentPosts env days st)))),
                snd (analyze env k posts (snd (getRecentPosts env days st)))))"
  by (cases k) (simp_all add: analysis_def analyzeTrends_unfold analyzeProblems_unfold split: sum.splits)

text \<open>
  When the other analysis has settled, the event loop runs an analysis as
  \<open>analyzeTrends\<close> or \<open>analyzeProblems\<close> describes it: the same result, the same events
  and the same clock.
\<close>

lemma analysis_alone:
  "eventLoop env (alone k r (fst (startAnalysis env days st)) (snd (startAnalysis env days st)))
     = alone k r (Settled (fst (analysis k env days st))) (snd (analysis k env days st))"
proof -
  let ?due = "now st + fst (findAll env (queries st))"
  let ?cutoff = "cutoffTimestamp env (now st) days"
  let ?s1 = "st\<lparr> queries := Suc (queries st), now := ?due \<rparr>"
  have start: "startAnalysis env days st
                 = (AwaitingQuery ?due ?cutoff (snd (findAll env (queries st))),
                    st\<lparr> queries := Suc (queries st) \<rparr>)"
    by (simp add: startAnalysis_def case_prod_beta Let_def)
  have step: "eventLoop env (alone k r (fst (startAnalysis env days st)) (snd (startAnalysis env days st)))
                = eventLoop env
                    (alone k r
                      (fst (resume env k (AwaitingQuery ?due ?cutoff (snd (findAll env (queries st)))) ?s1))
                      (snd (resume env k (AwaitingQuery ?due ?cutoff (snd (findAll env (queries st)))) ?s1)))"
    by (simp add: start alone_turn [where due = ?due])
  show ?thesis
  proof (cases "snd (findAll env (queries st))")
    case None
    then show ?thesis
      unfolding step
      by (simp add: resume_def alone_settled analysis_unfold getRecentPosts_cases(1))
  next
    case (Some found)
    let ?posts = "filter (\<lambda>post. created_utc post \<ge> ?cutoff) found"
    note g = getRecentPosts_cases(2) [OF Some, of days]
    consider "?posts = []" | "?posts \<noteq> []" "circuitBreakerRefuses ?s1"
      | "?posts \<noteq> []" "\<not> circuitBreakerRefuses ?s1"
      by blast
    then show ?thesis
    proof cases
      case 1
      then show ?thesis
        unfolding step by (simp add: Some resume_def alone_settled analysis_unfold g)
    next
      case 2
      then show ?thesis
        unfolding step
        by (simp add: Some resume_def alone_settled analysis_unfold g analyze_refused
            useFallback_def emit_def)
    next
      case 3
      have "resume env k (AwaitingQuery ?due ?cutoff (snd (findAll env (queries st)))) ?s1
              = request env k ?posts 1 ?s1"
        using 3 by (simp add: Some resume_def)
      then show ?thesis
        unfolding step using 3
        by (simp add: attempts_alone analysis_unfold g analyze_allowed)
    qed
  qed
qed

section \<open>What reaches the caller of generateReport\<close>













text \<open>
  The first request fails, the second is answered with \<open>[]\<close> and the third with
  \<open>[{}]\<close>: the problem analysis gets the second response while the trend analysis waits
  for its retry, and a report is produced.
\<close>

lemma mixedEnv_run:
  "succeeded (fst (generateReport mixedEnv 30 startState))"
  "events (snd (generateReport mixedEnv 30 startState))
     = [Requested Trends 1, Requested Problems 1, AttemptFailed Trends 1, Waited Trends 2000,
        BreakerClosed Problems, Requested Trends 2, BreakerClosed Trends]"
  by code_simp+


section \<open>The empty window\<close>

lemma resume_empty_window:
  "filter (\<lambda>post. created_utc post \<ge> cutoff) found = [] \<Longrightarrow>
   resume env k (AwaitingQuery due cutoff (Some found)) st = (Settled (Inr []), st)"
  by (simp add: resume_def)

lemma eventLoop_settled:
  "eventLoop env (Settled rt, Settled rp, st) = (Settled rt, Settled rp, st)"
  by (subst eventLoop.simps) (simp add: turn_def nextTask_def)

lemma eventLoop_empty_windows:
  assumes "filter (\<lambda>post. created_utc post \<ge> c1) found1 = []"
    and "filter (\<lambda>post. created_utc post \<ge> c2) found2 = []"
  shows "eventLoop env (AwaitingQuery a c1 (Some found1), AwaitingQuery b c2 (Some found2), st)
           = (Settled (Inr []), Settled (Inr []), st\<lparr> now := max a b \<rparr>)"
proof -
  have t: "turn env (AwaitingQuery a c1 (Some found1), AwaitingQuery b c2 (Some found2), st)
             = Some (if a < b \<or> (a = b \<and> trendsFirst env a)
                     then (Settled (Inr []), AwaitingQuery b c2 (Some found2), st\<lparr> now := a \<rparr>)
                     else (AwaitingQuery a c1 (Some found1), Settled (Inr []), st\<lparr> now := b \<rparr>))"
    by (auto simp: turn_def nextTask_def resume_empty_window assms)
  have t1: "turn env (Settled (Inr []), AwaitingQuery b c2 (Some found2), s)
              = Some (Settled (Inr []), Settled (Inr []), s\<lparr> now := b \<rparr>)" for s
    by (simp add: turn_def nextTask_def resume_empty_window assms)
  have t2: "turn env (AwaitingQuery a c1 (Some found1), Settled (Inr []), s)
              = Some (Settled (Inr []), Settled (Inr []), s\<lparr> now := a \<rparr>)" for s
    by (simp add: turn_def nextTask_def resume_empty_window assms)
  show ?thesis
    by (subst eventLoop.simps, simp add: t, intro conjI impI;
        subst eventLoop.simps, simp add: t1 t2 eventLoop_settled max_def)
qed

text \<open>
  Claim C9. When the record window that each of the two analyses fetches is empty,
  \<open>generateReport\<close> returns the report of two empty collections: neither analysis gets
  to its breaker guard or to a request, so no event is added, no request is made and
  the breaker is left as it was. The service has made its two queries, and the clock
  has advanced by the time the slower of them took.
\<close>

theorem empty_window_short_circuit:
  assumes first: "fetchedWindow env days st (queries st) = Some []"
    and second: "fetchedWindow env days st (Suc (queries st)) = Some []"
  shows "fst (generateReport env days st) = Inr (emptyReport days)
    \<and> snd (generateReport env days st)
        = st\<lparr> queries := Suc (Suc (queries st)),
              now := now st + max (fst (findAll env (queries st)))
                                  (fst (findAll env (Suc (queries st)))) \<rparr>
    \<and> calls (snd (generateReport env days st)) = calls st
    \<and> events (snd (generateReport env days st)) = events st
    \<and> sameBreaker (snd (generateReport env days st)) st"
proof -
  let ?c = "cutoffTimestamp env (now st) days"
  obtain found1 where f1: "snd (findAll env (queries st)) = Some found1"
    and e1: "filter (\<lambda>post. created_utc post \<ge> ?c) found1 = []"
    using first by (auto simp: fetchedWindow_def split: option.splits)
  obtain found2 where f2: "snd (findAll env (Suc (queries st))) = Some found2"
    and e2: "filter (\<lambda>post. created_utc post \<ge> ?c) found2 = []"
    using second by (auto simp: fetchedWindow_def split: option.splits)
  have g: "generateReport env days st
             = (Inr (emptyReport days),
                st\<lparr> queries := Suc (Suc (queries st)),
                    now := now st + max (fst (findAll env (queries st)))
                                        (fst (findAll env (Suc (queries st)))) \<rparr>)"
    by (simp add: generateReport_def startAnalysis_def case_prod_beta Let_def f1 f2
        eventLoop_empty_windows [OF e1 e2] renderReport_empty)
  show ?thesis
    by (simp add: g sameBreaker_def)
qed

lemma lateState_windows:
  "fetchedWindow flakyEnv 30 lateState (queries lateState) = Some []"
  "fetchedWindow flakyEnv 30 lateState (Suc (queries lateState)) = Some []"
  by code_simp+

theorem empty_window_short_circuit_witness:
  "fetchedWindow flakyEnv 30 lateState (queries lateState) = Some []
   \<and> fetchedWindow flakyEnv 30 lateState (Suc (queries lateState)) = Some []
   \<and> snd (findAll flakyEnv 0) = Some scenarioPosts
   \<and> fst (generateReport flakyEnv 30 lateState) = Inr (emptyReport 30)
   \<and> snd (generateReport flakyEnv 30 lateState) = lateState\<lparr> queries := 2, now := 1740000000040 \<rparr>
   \<and> calls (snd (generateReport flakyEnv 30 lateState)) = 0
   \<and> events (snd (generateReport flakyEnv 30 lateState)) = []"
  using empty_window_short_circuit [OF lateState_windows] lateState_windows
  by (simp add: lateState_def startState_def flakyEnv_def sampleEnv_def)

section \<open>Sample runs across both paths\<close>

theorem shared_circuit_breaker_witness:
  "\<not> circuitBreakerRefuses startState
   \<and> \<not> responseDecodes garbledEnv 0 \<and> \<not> responseDecodes garbledEnv 1 \<and> \<not> responseDecodes garbledEnv 2
   \<and> sameBreaker minuteLater (snd (analyzeWithGemini garbledEnv scenarioPosts startState))
   \<and> now minuteLater
        < now (snd (analyzeWithGemini garbledEnv scenarioPosts startState)) + circuitBreakerTimeout
   \<and> analyzeProblemsWithGemini flakyEnv twentyPosts minuteLater
       = (map problemJson (getFallbackProblemAnalysis twentyPosts),
          minuteLater\<lparr> events := events minuteLater @ [BreakerRefused Problems, FallbackUsed Problems] \<rparr>)
   \<and> sameBreaker problemsExhausted problemsExhausted
   \<and> now problemsExhausted < now problemsExhausted + circuitBreakerTimeout
   \<and> analyzeWithGemini flakyEnv scenarioPosts problemsExhausted
       = (map trendJson (getFallbackTrendAnalysis scenarioPosts),
          problemsExhausted\<lparr> events := events problemsExhausted @ [BreakerRefused Trends, FallbackUsed Trends] \<rparr>)
   \<and> \<not> responseDecodes flakyEnv 0 \<and> \<not> responseDecodes flakyEnv 1 \<and> responseDecodes flakyEnv 2
   \<and> sameBreaker trendsSucceeded trendsSucceeded
   \<and> \<not> circuitBreakerRefuses trendsSucceeded
   \<and> (\<exists>new. newEvents trendsSucceeded (snd (analyzeProblemsWithGemini garbledEnv twentyPosts trendsSucceeded))
               = Requested Problems 1 # new)"
proof -
  have f: "\<forall>j<3. \<not> responseDecodes garbledEnv (calls startState + j)"
    by (simp add: garbledEnv_fails)
  have e: "snd (analyzeWithGemini garbledEnv scenarioPosts startState) = exhaustedState"
    by (simp add: exhaustedState_def analyzeWithGemini_def)
  have s1: "sameBreaker minuteLater (snd (analyzeWithGemini garbledEnv scenarioPosts startState))"
    by (simp add: e sameBreaker_def minuteLater_def)
  have t1: "now minuteLater
        < now (snd (analyzeWithGemini garbledEnv scenarioPosts startState)) + circuitBreakerTimeout"
    by (simp add: e minuteLater_def circuitBreakerTimeout_def)
  have c1: "analyzeProblemsWithGemini flakyEnv twentyPosts minuteLater
       = (map problemJson (getFallbackProblemAnalysis twentyPosts),
          minuteLater\<lparr> events := events minuteLater @ [BreakerRefused Problems, FallbackUsed Problems] \<rparr>)"
    using shared_circuit_breaker [OF startState_allowed, of garbledEnv minuteLater scenarioPosts
        flakyEnv twentyPosts] f s1 t1
    by blast
  have s2: "sameBreaker problemsExhausted problemsExhausted"
    by (simp add: sameBreaker_def)
  have t2: "now problemsExhausted < now problemsExhausted + circuitBreakerTimeout"
    by (simp add: circuitBreakerTimeout_def)
  have c2: "analyzeWithGemini flakyEnv scenarioPosts problemsExhausted
       = (map trendJson (getFallbackTrendAnalysis scenarioPosts),
          problemsExhausted\<lparr> events := events problemsExhausted @ [BreakerRefused Trends, FallbackUsed Trends] \<rparr>)"
    using shared_circuit_breaker [OF startState_allowed, of garbledEnv problemsExhausted scenarioPosts
        flakyEnv scenarioPosts] f s2 t2
    unfolding problemsExhausted_def by blast
  have two: "(2::nat) < 3" by simp
  have fl: "\<forall>j<2. \<not> responseDecodes flakyEnv (calls startState + j)"
    using flakyEnv_responses(1,2) by (auto simp: startState_calls less_2_cases_iff)
  have ok: "responseDecodes flakyEnv (calls startState + 2)"
    by code_simp
  have s3: "sameBreaker trendsSucceeded trendsSucceeded"
    by (simp add: sameBreaker_def)
  have c3: "\<not> circuitBreakerRefuses trendsSucceeded"
    and c4: "\<exists>new. newEvents trendsSucceeded (snd (analyzeProblemsWithGemini garbledEnv twentyPosts trendsSucceeded))
               = Requested Problems 1 # new"
    using shared_circuit_breaker [OF startState_allowed, of flakyEnv trendsSucceeded scenarioPosts
        garbledEnv twentyPosts 2] two fl ok s3
    unfolding trendsSucceeded_def by blast+
  show ?thesis
    using startState_allowed garbledEnv_fails s1 t1 c1 s2 t2 c2 flakyEnv_responses(1,2,3) s3 c3 c4
    by blast
qed

lemma objectEnv_response:
  "snd (generateContent objectEnv (calls startState)) = Some ''{}''"
  "JSON_parse objectEnv (stripFence ''{}'') = Some (JObject [])"
  by (simp_all add: objectEnv_def sampleEnv_def sampleParse_texts)

lemma garbledEnv_response:
  "snd (generateContent garbledEnv (calls startState)) = Some ''oops''"
  "JSON_parse garbledEnv (stripFence ''oops'') = None"
  by (simp_all add: garbledEnv_def sampleEnv_def sampleParse_texts)

theorem response_decoding_witness:
  "snd (generateContent objectEnv (calls startState)) = Some ''{}''
   \<and> JSON_parse objectEnv (stripFence ''{}'') = Some (JObject [])
   \<and> tryAttempt objectEnv Trends 1 startState
       = (Some [], closeCircuitBreaker Trends (afterRequest objectEnv Trends 1 startState))
   \<and> snd (generateContent garbledEnv (calls startState)) = Some ''oops''
   \<and> JSON_parse garbledEnv (stripFence ''oops'') = None
   \<and> tryAttempt garbledEnv Trends 1 startState = (None, afterRequest garbledEnv Trends 1 startState)
   \<and> (1::int) < maxRetries
   \<and> attemptLoop garbledEnv Trends scenarioPosts 1 startState
       = attemptLoop garbledEnv Trends scenarioPosts (1 + 1) (afterFailure garbledEnv Trends 1 startState)
   \<and> fst (attemptLoop garbledEnv Trends scenarioPosts maxRetries startState)
       = fallbackAnalysis Trends scenarioPosts
   \<and> circuitBreakerOpen (snd (attemptLoop garbledEnv Trends scenarioPosts maxRetries startState))"
proof -
  have one: "(1::int) < maxRetries"
    by (simp add: maxRetries_def)
  have na: "\<forall>items. JObject [] \<noteq> JArray items"
    by simp
  have c1: "tryAttempt objectEnv Trends 1 startState
       = (Some [], closeCircuitBreaker Trends (afterRequest objectEnv Trends 1 startState))"
    using response_decoding [OF objectEnv_response(1), where v = "JObject []" and k = Trends and a = 1]
      objectEnv_response(2) na by blast
  note g1 = response_decoding [OF garbledEnv_response(1), where k = Trends and posts = scenarioPosts and a = 1]
  note g3 = response_decoding [OF garbledEnv_response(1), where k = Trends and posts = scenarioPosts
      and a = maxRetries]
  have c2: "tryAttempt garbledEnv Trends 1 startState = (None, afterRequest garbledEnv Trends 1 startState)"
    and c3: "attemptLoop garbledEnv Trends scenarioPosts 1 startState
       = attemptLoop garbledEnv Trends scenarioPosts (1 + 1) (afterFailure garbledEnv Trends 1 startState)"
    using g1 garbledEnv_response(2) one by blast+
  have c4: "fst (attemptLoop garbledEnv Trends scenarioPosts maxRetries startState)
       = fallbackAnalysis Trends scenarioPosts"
    and c5: "circuitBreakerOpen (snd (attemptLoop garbledEnv Trends scenarioPosts maxRetries startState))"
    using g3 garbledEnv_response(2) by blast+
  show ?thesis
    using objectEnv_response c1 garbledEnv_response c2 one c3 c4 c5 by blast
qed

lemma scenario_fallback_length: "length (fallbackAnalysis Trends scenarioPosts) = 2"
  by code_simp

text \<open>
  The claim C1 as the specification states it fails: every response is a text that
  cannot be decoded, and the analysis does not return the empty sequence. It waits and
  retries, opens the breaker, and returns the two insights of the fallback analyzer.
\<close>

theorem undecodable_response_counterexample:
  "snd (generateContent garbledEnv 0) = Some ''oops''
   \<and> JSON_parse garbledEnv (stripFence ''oops'') = None
   \<and> length (fst (analyzeWithGemini garbledEnv scenarioPosts startState)) = 2
   \<and> newEvents startState (snd (analyzeWithGemini garbledEnv scenarioPosts startState))
       = [Requested Trends 1, AttemptFailed Trends 1, Waited Trends 2000,
          Requested Trends 2, AttemptFailed Trends 2, Waited Trends 4000,
          Requested Trends 3, AttemptFailed Trends 3,
          BreakerOpened Trends 1700000408400, FallbackUsed Trends]
   \<and> circuitBreakerOpen (snd (analyzeWithGemini garbledEnv scenarioPosts startState))"
proof -
  have f: "\<forall>j<3. \<not> responseDecodes garbledEnv (calls startState + j)"
    by (simp add: garbledEnv_fails)
  have n: "now (snd (analyze garbledEnv Trends scenarioPosts startState)) = 1700000108400"
    using exhaustedState_facts(3) by (simp add: exhaustedState_def)
  show ?thesis
    using exhausted_state [OF startState_allowed f, of Trends scenarioPosts]
      garbledEnv_response scenario_fallback_length
    by (simp add: analyzeWithGemini_def n circuitBreakerTimeout_def startState_calls)
qed

end
